theory Spec2Isabelle
  imports Complex_Main
begin

section \<open>JavaScript values the interceptor handles\<close>

text \<open>
  A JavaScript string is a sequence of UTF-16 code units. The model uses \<^typ>\<open>string\<close>:
  a \<^typ>\<open>char\<close> stands for the code unit with the same number, so the contents covered
  are the strings over the code units 0 to 255. \<open>String.length\<close> is \<^const>\<open>length\<close>.
\<close>

definition code_unit :: "char \<Rightarrow> nat" where
  "code_unit c = of_char c"

definition in_range :: "char \<Rightarrow> char \<Rightarrow> char \<Rightarrow> bool" where
  "in_range lo hi c = (code_unit lo \<le> code_unit c \<and> code_unit c \<le> code_unit hi)"

text \<open>The character class escapes \<open>\d\<close>, \<open>\w\<close> and \<open>\s\<close> (white space and line terminators).\<close>

definition is_digit :: "char \<Rightarrow> bool" where
  "is_digit c = in_range CHR ''0'' CHR ''9'' c"

definition is_word_char :: "char \<Rightarrow> bool" where
  "is_word_char c =
     (in_range CHR ''a'' CHR ''z'' c \<or> in_range CHR ''A'' CHR ''Z'' c \<or> is_digit c \<or> c = CHR ''_'')"

definition is_space :: "char \<Rightarrow> bool" where
  "is_space c = (code_unit c \<in> {9, 10, 11, 12, 13, 32, 160})"

definition is_line_terminator :: "char \<Rightarrow> bool" where
  "is_line_terminator c = (code_unit c \<in> {10, 13})"

text \<open>\<open>String.prototype.trim\<close>.\<close>

definition trim :: "string \<Rightarrow> string" where
  "trim s = rev (dropWhile is_space (rev (dropWhile is_space s)))"

section \<open>Double-precision numbers\<close>

text \<open>
  A JavaScript number is an IEEE 754 double. A finite double is the real number it stands for;
  a decimal literal of the source and the result of every multiplication, division and
  addition is rounded to the nearest double, to the one with the even significand on a tie.
  \<open>bit_length n\<close> is the number of binary digits of \<open>n\<close>, and \<open>floor_log2 x\<close>, for
  positive \<open>x\<close>, the exponent \<open>k\<close> with \<open>2^k \<le> x < 2^(k+1)\<close>.
\<close>

function bit_length :: "int \<Rightarrow> nat" where
  "bit_length n = (if n \<le> 0 then 0 else Suc (bit_length (n div 2)))"
  by pat_completeness auto
termination
  by (relation "measure nat") auto

declare bit_length.simps [simp del]

definition floor_log2 :: "real \<Rightarrow> int" where
  "floor_log2 x = (if 1 \<le> x then int (bit_length \<lfloor>x\<rfloor>) - 1
                   else - int (bit_length (\<lceil>1 / x\<rceil> - 1)))"

definition pow2 :: "int \<Rightarrow> real" where
  "pow2 e = (if 0 \<le> e then 2 ^ nat e else 1 / 2 ^ nat (- e))"

definition round_half_even :: "real \<Rightarrow> int" where
  "round_half_even y =
     (let f = \<lfloor>y\<rfloor>; d = y - of_int f
      in if d < 1 / 2 then f else if 1 / 2 < d then f + 1 else if even f then f else f + 1)"

text \<open>
  \<open>dbl x\<close> is the double nearest to \<open>x\<close>: a significand of 53 binary digits, and of fewer
  below \<open>2^-1022\<close>, where the exponent stays at \<open>-1074\<close>. A result of magnitude
  \<open>2^1024\<close> or more stands for an infinity; \<open>to_number\<close> below makes it one where a
  number is read from text, and no score comes near it.
\<close>

definition dbl :: "real \<Rightarrow> real" where
  "dbl x =
     (if x = 0 then 0
      else let e = max (floor_log2 \<bar>x\<bar> - 52) (- 1074);
               m = round_half_even (\<bar>x\<bar> / pow2 e)
           in sgn x * of_int m * pow2 e)"

definition double_mul :: "real \<Rightarrow> real \<Rightarrow> real" where
  "double_mul a b = dbl (a * b)"

definition double_div :: "real \<Rightarrow> real \<Rightarrow> real" where
  "double_div a b = dbl (a / b)"

definition double_add :: "real \<Rightarrow> real \<Rightarrow> real" where
  "double_add a b = dbl (a + b)"

section \<open>Regular expressions\<close>

text \<open>
  The patterns of the scorer are regular expression literals; \<open>content.match(regex)\<close>
  runs the backtracking matcher of the language on them. The syntax below covers what the
  sixteen patterns use: character classes (possibly negated), the dot, the word boundary
  \<open>\b\<close>, sequence, alternation and greedy quantifiers \<open>{min,max}\<close>.
\<close>

datatype class_item = CChar char | CRange char char | CDigit | CSpace | CWord

datatype regex =
    Cls bool "class_item list"
  | Dot
  | WordBoundary
  | Empty
  | Seq regex regex
  | Alt regex regex
  | Rep nat "nat option" regex

fun item_chars :: "class_item \<Rightarrow> char \<Rightarrow> bool" where
  "item_chars (CChar a) c = (a = c)"
| "item_chars (CRange lo hi) c = in_range lo hi c"
| "item_chars CDigit c = is_digit c"
| "item_chars CSpace c = is_space c"
| "item_chars CWord c = is_word_char c"

text \<open>
  With the \<open>i\<close> flag (and no \<open>u\<close> flag) a character is in a set when some member of
  the set has the same canonical form, the upper-case form when that is one code unit and
  does not turn a non-ASCII character into an ASCII one. Among the code units 0 to 255 the
  characters with the canonical form of \<open>c\<close> are \<open>c\<close> itself and its other case, if it
  has one there.
\<close>

definition other_case :: "char \<Rightarrow> char list" where
  "other_case c =
     (let n = code_unit c in
      if (65 \<le> n \<and> n \<le> 90) \<or> (192 \<le> n \<and> n \<le> 222 \<and> n \<noteq> 215) then [char_of (n + 32)]
      else if (97 \<le> n \<and> n \<le> 122) \<or> (224 \<le> n \<and> n \<le> 254 \<and> n \<noteq> 247) then [char_of (n - 32)]
      else [])"

definition item_matches :: "bool \<Rightarrow> class_item \<Rightarrow> char \<Rightarrow> bool" where
  "item_matches ignore_case it c =
     (item_chars it c \<or> (ignore_case \<and> list_ex (item_chars it) (other_case c)))"

definition class_matches :: "bool \<Rightarrow> bool \<Rightarrow> class_item list \<Rightarrow> char \<Rightarrow> bool" where
  "class_matches ignore_case negated items c = (list_ex (\<lambda>it. item_matches ignore_case it c) items \<noteq> negated)"

text \<open>
  A matcher state is the last character before the current position (none at the start of
  the input) and the rest of the input. A continuation takes the state reached and
  completes the match or fails, as in the language definition.
\<close>

type_synonym mstate = "char option \<times> string"
type_synonym continuation = "mstate \<Rightarrow> mstate option"
type_synonym matcher = "mstate \<Rightarrow> continuation \<Rightarrow> mstate option"

definition is_word_at :: "char option \<Rightarrow> bool" where
  "is_word_at p = (case p of None \<Rightarrow> False | Some c \<Rightarrow> is_word_char c)"

text \<open>
  \<open>RepeatMatcher\<close>: a greedy quantifier tries one more iteration first and falls back to
  the continuation; once the minimum is reached, an iteration that consumed nothing is
  rejected. Every further call has a smaller \<open>min\<close> or, when \<open>min\<close> is zero, a
  shorter rest of input, so \<open>min + length rest + 1\<close> steps always suffice; the first
  argument counts them.
\<close>

fun repeat_matcher :: "nat \<Rightarrow> matcher \<Rightarrow> nat \<Rightarrow> nat option \<Rightarrow> matcher" where
  "repeat_matcher 0 m mn mx x c = None"
| "repeat_matcher (Suc fuel) m mn mx x c =
     (if mx = Some 0 then c x
      else
        let d = (\<lambda>y. if mn = 0 \<and> length (snd y) = length (snd x) then None
                      else repeat_matcher fuel m (mn - 1) (map_option (\<lambda>n. n - 1) mx) y c)
        in if mn \<noteq> 0 then m x d
           else (case m x d of Some z \<Rightarrow> Some z | None \<Rightarrow> c x))"

primrec compile :: "regex \<Rightarrow> bool \<Rightarrow> matcher" where
  "compile (Cls negated items) ic = (\<lambda>x c.
     case snd x of [] \<Rightarrow> None
     | ch # rest \<Rightarrow> if class_matches ic negated items ch then c (Some ch, rest) else None)"
| "compile Dot ic = (\<lambda>x c.
     case snd x of [] \<Rightarrow> None
     | ch # rest \<Rightarrow> if is_line_terminator ch then None else c (Some ch, rest))"
| "compile WordBoundary ic = (\<lambda>x c.
     if is_word_at (fst x) \<noteq> is_word_at (case snd x of [] \<Rightarrow> None | ch # _ \<Rightarrow> Some ch)
     then c x else None)"
| "compile Empty ic = (\<lambda>x c. c x)"
| "compile (Seq r1 r2) ic = (\<lambda>x c. compile r1 ic x (\<lambda>y. compile r2 ic y c))"
| "compile (Alt r1 r2) ic = (\<lambda>x c.
     case compile r1 ic x c of Some z \<Rightarrow> Some z | None \<Rightarrow> compile r2 ic x c)"
| "compile (Rep mn mx r) ic = (\<lambda>x c.
     repeat_matcher (mn + length (snd x) + 1) (compile r ic) mn mx x c)"

text \<open>
  A matcher continues forward when its result depends on its continuation only at states
  with no more input left than it was given. Every compiled expression does, and for such
  a matcher any step count above \<open>min + length rest\<close> gives \<open>RepeatMatcher\<close> the same
  result (lemmas \<open>compile_continues_forward\<close> and \<open>repeat_matcher_enough\<close> below).
\<close>

definition continues_forward :: "matcher \<Rightarrow> bool" where
  "continues_forward m =
     (\<forall>x c c'. (\<forall>y. length (snd y) \<le> length (snd x) \<longrightarrow> c y = c' y) \<longrightarrow> m x c = m x c')"

text \<open>A match attempt at one position: the rest of the input after the match, if any.\<close>

definition match_here :: "regex \<Rightarrow> bool \<Rightarrow> char option \<Rightarrow> string \<Rightarrow> string option" where
  "match_here r ic prev s = map_option snd (compile r ic (prev, s) Some)"

text \<open>
  \<open>String.prototype.match\<close> with a global pattern sets \<open>lastIndex\<close> to zero and collects
  the matched substrings from left to right: each search starts where the last match
  ended, one position further after an empty match. \<open>skip\<close> is the number of positions
  still covered by the last match. The array of matches is the list; \<open>null\<close> (no match)
  is the empty list.
\<close>

fun match_global :: "regex \<Rightarrow> bool \<Rightarrow> char option \<Rightarrow> nat \<Rightarrow> string \<Rightarrow> string list" where
  "match_global r ic prev skip [] =
     (if skip = 0 then (case match_here r ic prev [] of None \<Rightarrow> [] | Some _ \<Rightarrow> [[]]) else [])"
| "match_global r ic prev skip (ch # s) =
     (if skip \<noteq> 0 then match_global r ic (Some ch) (skip - 1) s
      else case match_here r ic prev (ch # s) of
             None \<Rightarrow> match_global r ic (Some ch) 0 s
           | Some rest \<Rightarrow>
               let n = Suc (length s) - length rest
               in take n (ch # s) # match_global r ic (Some ch) (n - 1) s)"

text \<open>A pattern literal is an expression with its \<open>i\<close> flag; all of them carry \<open>g\<close>.\<close>

record pattern =
  expr :: regex
  ignore_case :: bool

definition string_match :: "string \<Rightarrow> pattern \<Rightarrow> string list" where
  "string_match content p = match_global (expr p) (ignore_case p) None 0 content"

subsection \<open>Writing patterns\<close>

definition rx_chr :: "char \<Rightarrow> regex" where
  "rx_chr c = Cls False [CChar c]"

fun rx_seq :: "regex list \<Rightarrow> regex" where
  "rx_seq [] = Empty"
| "rx_seq [r] = r"
| "rx_seq (r # rs) = Seq r (rx_seq rs)"

fun rx_alt :: "regex list \<Rightarrow> regex" where
  "rx_alt [] = Empty"
| "rx_alt [r] = r"
| "rx_alt (r # rs) = Alt r (rx_alt rs)"

definition rx_lit :: "string \<Rightarrow> regex" where
  "rx_lit s = rx_seq (map rx_chr s)"

definition rx_opt :: "regex \<Rightarrow> regex" where
  "rx_opt r = Rep 0 (Some 1) r"

definition rx_star :: "regex \<Rightarrow> regex" where
  "rx_star r = Rep 0 None r"

definition rx_plus :: "regex \<Rightarrow> regex" where
  "rx_plus r = Rep 1 None r"

definition rx_digit :: regex where
  "rx_digit = Cls False [CDigit]"

definition rx_space :: regex where
  "rx_space = Cls False [CSpace]"

definition rx_word :: regex where
  "rx_word = Cls False [CWord]"

section \<open>Pattern scorer\<close>

subsection \<open>\<open>PATTERNS\<close>\<close>

definition sep :: regex where
  "sep = Cls False [CSpace, CChar CHR ''.'', CChar CHR ''-'']"

definition alnum :: regex where
  "alnum = Cls False [CRange CHR ''a'' CHR ''z'', CRange CHR ''A'' CHR ''Z'', CRange CHR ''0'' CHR ''9'']"

definition letter :: regex where
  "letter = Cls False [CRange CHR ''a'' CHR ''z'', CRange CHR ''A'' CHR ''Z'']"

definition lower :: regex where
  "lower = Cls False [CRange CHR ''a'' CHR ''z'']"

definition local_part :: regex where
  "local_part = Cls False [CRange CHR ''a'' CHR ''z'', CRange CHR ''A'' CHR ''Z'', CRange CHR ''0'' CHR ''9'',
     CChar CHR ''.'', CChar CHR ''_'', CChar CHR ''%'', CChar CHR ''+'', CChar CHR ''-'']"

definition domain_part :: regex where
  "domain_part = Cls False [CRange CHR ''a'' CHR ''z'', CRange CHR ''A'' CHR ''Z'', CRange CHR ''0'' CHR ''9'',
     CChar CHR ''.'', CChar CHR ''-'']"

text \<open>\<open>/(?:\+|00)\d{1,3}[\s.-]?\(?\d{1,4}\)?[\s.-]?\d{1,4}[\s.-]?\d{1,9}/g\<close>\<close>

definition phone_international :: pattern where
  "phone_international = \<lparr>expr = rx_seq [Alt (rx_chr CHR ''+'') (rx_lit ''00''), Rep 1 (Some 3) rx_digit,
     rx_opt sep, rx_opt (rx_chr CHR ''(''), Rep 1 (Some 4) rx_digit, rx_opt (rx_chr CHR '')''),
     rx_opt sep, Rep 1 (Some 4) rx_digit, rx_opt sep, Rep 1 (Some 9) rx_digit],
     ignore_case = False\<rparr>"

text \<open>\<open>/\(?\d{3}\)?[\s.-]?\d{3}[\s.-]?\d{4}/g\<close>\<close>

definition phone_us :: pattern where
  "phone_us = \<lparr>expr = rx_seq [rx_opt (rx_chr CHR ''(''), Rep 3 (Some 3) rx_digit, rx_opt (rx_chr CHR '')''),
     rx_opt sep, Rep 3 (Some 3) rx_digit, rx_opt sep, Rep 4 (Some 4) rx_digit],
     ignore_case = False\<rparr>"

text \<open>\<open>/\b\d{10,15}\b/g\<close>\<close>

definition phone_condensed :: pattern where
  "phone_condensed = \<lparr>expr = rx_seq [WordBoundary, Rep 10 (Some 15) rx_digit, WordBoundary],
     ignore_case = False\<rparr>"

text \<open>\<open>/[a-zA-Z0-9._%+-]+@[a-zA-Z0-9.-]+\.[a-zA-Z]{2,}/g\<close>\<close>

definition email_standard :: pattern where
  "email_standard = \<lparr>expr = rx_seq [rx_plus local_part, rx_chr CHR ''@'', rx_plus domain_part,
     rx_chr CHR ''.'', Rep 2 None letter],
     ignore_case = False\<rparr>"

text \<open>\<open>/[a-zA-Z0-9._%+-]+\s*\(?at\)?\s*[a-zA-Z0-9.-]+\s*\(?dot\)?\s*[a-zA-Z]{2,}/gi\<close>\<close>

definition email_at_dot :: pattern where
  "email_at_dot = \<lparr>expr = rx_seq [rx_plus local_part, rx_star rx_space, rx_opt (rx_chr CHR ''(''),
     rx_lit ''at'', rx_opt (rx_chr CHR '')''), rx_star rx_space, rx_plus domain_part, rx_star rx_space,
     rx_opt (rx_chr CHR ''(''), rx_lit ''dot'', rx_opt (rx_chr CHR '')''), rx_star rx_space,
     Rep 2 None letter],
     ignore_case = True\<rparr>"

text \<open>\<open>/\b[a-z]\s+[a-z]\s+[a-z].*@.*[a-z]\s+[a-z]\s+[a-z]\b/gi\<close>\<close>

definition email_spaced :: pattern where
  "email_spaced = \<lparr>expr = rx_seq [WordBoundary, lower, rx_plus rx_space, lower, rx_plus rx_space, lower,
     rx_star Dot, rx_chr CHR ''@'', rx_star Dot, lower, rx_plus rx_space, lower, rx_plus rx_space, lower,
     WordBoundary],
     ignore_case = True\<rparr>"

text \<open>\<open>/https?:\/\/[^\s]+/gi\<close>\<close>

definition url_protocol :: pattern where
  "url_protocol = \<lparr>expr = rx_seq [rx_lit ''http'', rx_opt (rx_chr CHR ''s''), rx_lit ''://'',
     rx_plus (Cls True [CSpace])],
     ignore_case = True\<rparr>"

text \<open>\<open>/(?:www\.)[a-zA-Z0-9.-]+\.[a-zA-Z]{2,}/gi\<close>\<close>

definition url_www :: pattern where
  "url_www = \<lparr>expr = rx_seq [rx_lit ''www.'', rx_plus domain_part, rx_chr CHR ''.'', Rep 2 None letter],
     ignore_case = True\<rparr>"

text \<open>\<open>/\b(?:bit\.ly|tinyurl\.com|goo\.gl|t\.co|short\.link)\/[a-zA-Z0-9]+/gi\<close>\<close>

definition url_shortener :: pattern where
  "url_shortener = \<lparr>expr = rx_seq [WordBoundary,
     rx_alt [rx_lit ''bit.ly'', rx_lit ''tinyurl.com'', rx_lit ''goo.gl'', rx_lit ''t.co'', rx_lit ''short.link''],
     rx_chr CHR ''/'', rx_plus alnum],
     ignore_case = True\<rparr>"

text \<open>\<open>/\b(?:whatsapp|telegram|snapchat|snap|insta|instagram|discord|kik|signal)\b/gi\<close>\<close>

definition social_keyword :: pattern where
  "social_keyword = \<lparr>expr = rx_seq [WordBoundary,
     rx_alt [rx_lit ''whatsapp'', rx_lit ''telegram'', rx_lit ''snapchat'', rx_lit ''snap'', rx_lit ''insta'',
             rx_lit ''instagram'', rx_lit ''discord'', rx_lit ''kik'', rx_lit ''signal''],
     WordBoundary],
     ignore_case = True\<rparr>"

text \<open>\<open>/\bDM\s+me\b/gi\<close>\<close>

definition social_dm_me :: pattern where
  "social_dm_me = \<lparr>expr = rx_seq [WordBoundary, rx_lit ''DM'', rx_plus rx_space, rx_lit ''me'', WordBoundary],
     ignore_case = True\<rparr>"

text \<open>\<open>/\btext\s+me\b/gi\<close>\<close>

definition social_text_me :: pattern where
  "social_text_me = \<lparr>expr = rx_seq [WordBoundary, rx_lit ''text'', rx_plus rx_space, rx_lit ''me'', WordBoundary],
     ignore_case = True\<rparr>"

text \<open>\<open>/\bcontact\s+(?:me|us)\s+(?:at|on)\b/gi\<close>\<close>

definition social_contact :: pattern where
  "social_contact = \<lparr>expr = rx_seq [WordBoundary, rx_lit ''contact'', rx_plus rx_space,
     Alt (rx_lit ''me'') (rx_lit ''us''), rx_plus rx_space, Alt (rx_lit ''at'') (rx_lit ''on''), WordBoundary],
     ignore_case = True\<rparr>"

text \<open>\<open>/[a-zA-Z0-9]\s{2,}[a-zA-Z0-9]/g\<close>\<close>

definition obfuscation_spacing :: pattern where
  "obfuscation_spacing = \<lparr>expr = rx_seq [alnum, Rep 2 None rx_space, alnum],
     ignore_case = False\<rparr>"

text \<open>\<open>/\b\w+\s*\(at\)\s*\w+\s*\(dot\)\s*\w+\b/gi\<close>\<close>

definition obfuscation_at_dot :: pattern where
  "obfuscation_at_dot = \<lparr>expr = rx_seq [WordBoundary, rx_plus rx_word, rx_star rx_space, rx_lit ''(at)'',
     rx_star rx_space, rx_plus rx_word, rx_star rx_space, rx_lit ''(dot)'', rx_star rx_space,
     rx_plus rx_word, WordBoundary],
     ignore_case = True\<rparr>"

text \<open>\<open>/\b(?:zero|one|two|three|four|five|six|seven|eight|nine)\b/gi\<close>\<close>

definition obfuscation_spelled :: pattern where
  "obfuscation_spelled = \<lparr>expr = rx_seq [WordBoundary,
     rx_alt [rx_lit ''zero'', rx_lit ''one'', rx_lit ''two'', rx_lit ''three'', rx_lit ''four'', rx_lit ''five'',
             rx_lit ''six'', rx_lit ''seven'', rx_lit ''eight'', rx_lit ''nine''],
     WordBoundary],
     ignore_case = True\<rparr>"

datatype pattern_type = phone | email | url | social | obfuscation

fun PATTERNS :: "pattern_type \<Rightarrow> pattern list" where
  "PATTERNS phone = [phone_international, phone_us, phone_condensed]"
| "PATTERNS email = [email_standard, email_at_dot, email_spaced]"
| "PATTERNS url = [url_protocol, url_www, url_shortener]"
| "PATTERNS social = [social_keyword, social_dm_me, social_text_me, social_contact]"
| "PATTERNS obfuscation = [obfuscation_spacing, obfuscation_at_dot, obfuscation_spelled]"

subsection \<open>\<open>PATTERN_WEIGHTS\<close>\<close>

fun PATTERN_WEIGHTS :: "pattern_type \<Rightarrow> real" where
  "PATTERN_WEIGHTS phone = dbl 0.85"
| "PATTERN_WEIGHTS email = dbl 0.80"
| "PATTERN_WEIGHTS url = dbl 0.50"
| "PATTERN_WEIGHTS social = dbl 0.40"
| "PATTERN_WEIGHTS obfuscation = dbl 0.15"

subsection \<open>\<open>scanPatterns\<close>\<close>

record PatternMatch =
  type :: pattern_type
  count :: nat
  samples :: "string list"

text \<open>A \<open>Set<string>\<close> keeps its members in insertion order; \<open>add\<close> ignores a member already there.\<close>

definition set_add :: "string list \<Rightarrow> string \<Rightarrow> string list" where
  "set_add members x = (if x \<in> set members then members else members @ [x])"

text \<open>
  One category of \<open>scanPatterns\<close>: every pattern of the category is matched against the
  content and each match is added, trimmed, to the set of the category.
\<close>

definition collect_matches :: "pattern list \<Rightarrow> string \<Rightarrow> string list" where
  "collect_matches regexes content =
     foldl (\<lambda>found_set regex. foldl (\<lambda>s m. set_add s (trim m)) found_set (string_match content regex))
       [] regexes"

definition scan_category :: "pattern_type \<Rightarrow> string \<Rightarrow> PatternMatch list" where
  "scan_category t content =
     (let found_set = collect_matches (PATTERNS t) content in
      if length found_set > 0
      then [\<lparr>type = t, count = length found_set, samples = take 3 found_set\<rparr>]
      else [])"

definition scanPatterns :: "string \<Rightarrow> PatternMatch list" where
  "scanPatterns content =
     scan_category phone content @ scan_category email content @ scan_category url content
       @ scan_category social content @ scan_category obfuscation content"

subsection \<open>\<open>calculateRiskScore\<close>\<close>

text \<open>
  The score is computed in doubles, each operation rounded, in the order the source writes
  them; \<open>Math.max\<close>, \<open>Math.min\<close> and the comparisons are exact, and the counts are
  integers. \<open>weight\<close> falls back to \<open>0.1\<close> when the table entry is falsy.
\<close>

definition score_step :: "real \<times> real \<Rightarrow> PatternMatch \<Rightarrow> real \<times> real" where
  "score_step acc match =
     (let weight = (if PATTERN_WEIGHTS (type match) \<noteq> 0 then PATTERN_WEIGHTS (type match) else dbl 0.1);
          maxWeight = max (fst acc) weight;
          contribution = double_div (double_mul weight (real (min (count match) 3))) 3
      in (maxWeight, double_add (snd acc) contribution))"

definition calculateRiskScore :: "PatternMatch list \<Rightarrow> real" where
  "calculateRiskScore matches =
     (if length matches = 0 then 0.0
      else
        let acc = foldl score_step (0.0, 0.0) matches;
            maxWeight = fst acc;
            totalContribution = snd acc;
            multiTypeBoost = (if length matches > 1
                              then double_mul (dbl 0.10) (real (length matches) - 1) else 0);
            score = double_add (max (double_mul maxWeight (dbl 0.85)) (double_mul totalContribution (dbl 0.7)))
                      multiTypeBoost
        in min score 1.0)"

subsection \<open>Labels and user-facing text\<close>

fun label_of :: "pattern_type \<Rightarrow> string" where
  "label_of phone = ''contact_info_phone''"
| "label_of email = ''contact_info_email''"
| "label_of url = ''external_link''"
| "label_of social = ''social_platform_mention''"
| "label_of obfuscation = ''obfuscation_detected''"

definition generateLabels :: "PatternMatch list \<Rightarrow> string list" where
  "generateLabels matches = map (\<lambda>match. label_of (type match)) matches"

definition generateNudgeMessage :: "real \<Rightarrow> PatternMatch list \<Rightarrow> string option" where
  "generateNudgeMessage riskScore matches =
     (if riskScore < dbl 0.4 \<or> riskScore \<ge> dbl 0.65 then None
      else
        let hasPhone = list_ex (\<lambda>m. type m = phone) matches;
            hasEmail = list_ex (\<lambda>m. type m = email) matches;
            hasSocial = list_ex (\<lambda>m. type m = social) matches
        in if hasPhone \<or> hasEmail
           then Some ''Sharing personal contact information may violate platform policies and put you at risk. Please keep conversations on the platform.''
           else if hasSocial
           then Some ''We noticed you're trying to move the conversation off-platform. For your safety, please continue chatting here.''
           else Some ''This message may contain content that violates our community guidelines. Please review before sending.'')"

text \<open>\<open>Array.prototype.join\<close>.\<close>

fun join :: "string \<Rightarrow> string list \<Rightarrow> string" where
  "join separator [] = []"
| "join separator [x] = x"
| "join separator (x # y # ys) = x @ separator @ join separator (y # ys)"

definition generateBlockReason :: "PatternMatch list \<Rightarrow> string" where
  "generateBlockReason matches =
     (let types = map type matches;
          reasons = (if phone \<in> set types then [''phone number''] else [])
                  @ (if email \<in> set types then [''email address''] else [])
                  @ (if url \<in> set types then [''external link''] else [])
                  @ (if social \<in> set types then [''social media reference''] else [])
      in if length reasons = 0 then ''Message blocked due to potential policy violation''
         else ''Message blocked: detected '' @ join '', '' reasons
                @ ''. Keep conversations on the platform for your safety.'')"

section \<open>Numbers and configuration\<close>

text \<open>
  A number read from the environment may also be \<open>NaN\<close> or an infinity; every comparison
  with \<open>NaN\<close> is false.
\<close>

datatype jsnum = NaN | NegInfinity | Fin real | PosInfinity

fun js_lt :: "jsnum \<Rightarrow> jsnum \<Rightarrow> bool" where
  "js_lt NaN b = False"
| "js_lt a NaN = False"
| "js_lt (Fin a) (Fin b) = (a < b)"
| "js_lt a NegInfinity = False"
| "js_lt PosInfinity b = False"
| "js_lt NegInfinity b = True"
| "js_lt a PosInfinity = True"

text \<open>The number a parsed decimal value becomes: the nearest double, or an infinity.\<close>

definition to_number :: "real \<Rightarrow> jsnum" where
  "to_number x =
     (if 2 ^ 1024 \<le> dbl x then PosInfinity
      else if dbl x \<le> - (2 ^ 1024) then NegInfinity
      else Fin (dbl x))"

definition js_gt :: "jsnum \<Rightarrow> jsnum \<Rightarrow> bool" where
  "js_gt a b = js_lt b a"

definition js_ge :: "jsnum \<Rightarrow> jsnum \<Rightarrow> bool" where
  "js_ge a b = (a \<noteq> NaN \<and> b \<noteq> NaN \<and> \<not> js_lt a b)"

text \<open>
  \<open>Number::toString\<close> for \<open>NaN\<close>, the infinities and the integers below \<open>10^21\<close>,
  which are written as their decimal digits. The one number the scorer prints,
  \<open>max_message_length\<close>, is read with \<open>parseInt\<close> and is an integer; it is printed
  only when a content is longer, and a string has fewer than \<open>2^53\<close> code units. The
  fraction digits and the exponent form of other numbers are not modelled.
\<close>

definition digit_char :: "int \<Rightarrow> char" where
  "digit_char n = ''0123456789'' ! nat n"

function decimal_digits :: "int \<Rightarrow> string" where
  "decimal_digits n = (if n < 10 then [digit_char n] else decimal_digits (n div 10) @ [digit_char (n mod 10)])"
  by pat_completeness auto
termination
  by (relation "measure nat") auto

declare decimal_digits.simps [simp del]

fun number_to_string :: "jsnum \<Rightarrow> string" where
  "number_to_string NaN = ''NaN''"
| "number_to_string PosInfinity = ''Infinity''"
| "number_to_string NegInfinity = ''-Infinity''"
| "number_to_string (Fin r) = (if r < 0 then ''-'' else []) @ decimal_digits \<lfloor>\<bar>r\<bar>\<rfloor>"

text \<open>
  \<open>parseInt(s, 10)\<close>: leading white space is skipped, a sign is read, and the longest
  run of decimal digits is the value, as a number; with no digit the result is \<open>NaN\<close>.
\<close>

definition digit_value :: "char \<Rightarrow> int" where
  "digit_value c = int (code_unit c) - 48"

definition digits_value :: "string \<Rightarrow> int" where
  "digits_value ds = foldl (\<lambda>v c. 10 * v + digit_value c) 0 ds"

definition read_sign :: "string \<Rightarrow> real \<times> string" where
  "read_sign s =
     (case s of
        c # rest \<Rightarrow> if c = CHR ''-'' then (-1, rest) else if c = CHR ''+'' then (1, rest) else (1, s)
      | [] \<Rightarrow> (1, s))"

definition parseInt :: "string \<Rightarrow> jsnum" where
  "parseInt s =
     (let (sign, t) = read_sign (dropWhile is_space s);
          ds = takeWhile is_digit t
      in if ds = [] then NaN else to_number (sign * of_int (digits_value ds)))"

text \<open>
  \<open>parseFloat(s)\<close>: the longest prefix, after leading white space, that is a decimal
  literal: a sign, then \<open>Infinity\<close> or digits with an optional fraction and an optional
  exponent. The result is the number for the decimal value.
\<close>

definition read_exponent :: "string \<Rightarrow> int" where
  "read_exponent s =
     (case s of
        c # rest \<Rightarrow>
          if c = CHR ''e'' \<or> c = CHR ''E''
          then (let (sign, t) = read_sign rest; ds = takeWhile is_digit t
                in if ds = [] then 0 else (if sign < 0 then - digits_value ds else digits_value ds))
          else 0
      | [] \<Rightarrow> 0)"

definition scale10 :: "real \<Rightarrow> int \<Rightarrow> real" where
  "scale10 v e = (if e < 0 then v / 10 ^ nat (- e) else v * 10 ^ nat e)"

definition parseFloat :: "string \<Rightarrow> jsnum" where
  "parseFloat s =
     (let (sign, t) = read_sign (dropWhile is_space s) in
      if take 8 t = ''Infinity'' then (if sign < 0 then NegInfinity else PosInfinity)
      else
        let ip = takeWhile is_digit t;
            t1 = dropWhile is_digit t;
            has_point = (t1 \<noteq> [] \<and> hd t1 = CHR ''.'');
            fp = (if has_point then takeWhile is_digit (tl t1) else []);
            t2 = (if has_point then dropWhile is_digit (tl t1) else t1)
        in if ip = [] \<and> fp = [] then NaN
           else to_number (sign * scale10 (of_int (digits_value ip) + of_int (digits_value fp) / 10 ^ length fp)
                                      (read_exponent t2)))"

subsection \<open>\<open>loadConfig\<close>\<close>

record InterceptorConfig =
  sync_threshold :: jsnum
  redis_host :: string
  redis_port :: jsnum
  detection_host :: string
  detection_port :: jsnum
  circuit_breaker_threshold :: jsnum
  circuit_breaker_reset_ms :: jsnum
  max_message_length :: jsnum

text \<open>
  The error thrown by \<open>loadConfig\<close>, one constructor for each message, with the number the
  message prints.
\<close>

datatype config_error =
    Invalid_sync_threshold jsnum
  | Invalid_redis_port jsnum
  | Invalid_detection_port jsnum
  | Invalid_circuit_breaker_threshold jsnum
  | Invalid_circuit_breaker_reset_ms jsnum
  | Invalid_max_message_length jsnum

text \<open>\<open>process.env.NAME || "default"\<close>: an unset variable and the empty string give the default.\<close>

definition env_or :: "(string \<rightharpoonup> string) \<Rightarrow> string \<Rightarrow> string \<Rightarrow> string" where
  "env_or env name dflt = (case env name of None \<Rightarrow> dflt | Some v \<Rightarrow> if v = [] then dflt else v)"

definition read_env :: "(string \<rightharpoonup> string) \<Rightarrow> InterceptorConfig" where
  "read_env env =
     \<lparr>sync_threshold = parseFloat (env_or env ''SYNC_THRESHOLD'' ''0.65''),
      redis_host = env_or env ''REDIS_HOST'' ''localhost'',
      redis_port = parseInt (env_or env ''REDIS_PORT'' ''6379''),
      detection_host = env_or env ''DETECTION_HOST'' ''localhost'',
      detection_port = parseInt (env_or env ''DETECTION_PORT'' ''8000''),
      circuit_breaker_threshold = parseInt (env_or env ''CIRCUIT_BREAKER_THRESHOLD'' ''5''),
      circuit_breaker_reset_ms = parseInt (env_or env ''CIRCUIT_BREAKER_RESET_MS'' ''30000''),
      max_message_length = parseInt (env_or env ''MAX_MESSAGE_LENGTH'' ''10000'')\<rparr>"

definition loadConfig :: "(string \<rightharpoonup> string) \<Rightarrow> config_error + InterceptorConfig" where
  "loadConfig env =
     (let config = read_env env in
      if js_lt (sync_threshold config) (Fin 0) \<or> js_gt (sync_threshold config) (Fin 1)
      then Inl (Invalid_sync_threshold (sync_threshold config))
      else if js_lt (redis_port config) (Fin 1) \<or> js_gt (redis_port config) (Fin 65535)
      then Inl (Invalid_redis_port (redis_port config))
      else if js_lt (detection_port config) (Fin 1) \<or> js_gt (detection_port config) (Fin 65535)
      then Inl (Invalid_detection_port (detection_port config))
      else if js_lt (circuit_breaker_threshold config) (Fin 1)
      then Inl (Invalid_circuit_breaker_threshold (circuit_breaker_threshold config))
      else if js_lt (circuit_breaker_reset_ms config) (Fin 1000)
      then Inl (Invalid_circuit_breaker_reset_ms (circuit_breaker_reset_ms config))
      else if js_lt (max_message_length config) (Fin 1)
      then Inl (Invalid_max_message_length (max_message_length config))
      else Inr config)"

section \<open>\<open>interceptMessage\<close>\<close>

text \<open>
  \<open>content\<close> is typed as a string, and the function checks that at run time: the field
  holds whatever value the request carried.
\<close>

datatype jsvalue = JUndefined | JNull | JBoolean bool | JNumber jsnum | JString string | JObject

fun truthy :: "jsvalue \<Rightarrow> bool" where
  "truthy JUndefined = False"
| "truthy JNull = False"
| "truthy (JBoolean b) = b"
| "truthy (JNumber n) = (n \<noteq> NaN \<and> n \<noteq> Fin 0)"
| "truthy (JString s) = (s \<noteq> [])"
| "truthy JObject = True"

fun typeof :: "jsvalue \<Rightarrow> string" where
  "typeof JUndefined = ''undefined''"
| "typeof JNull = ''object''"
| "typeof (JBoolean b) = ''boolean''"
| "typeof (JNumber n) = ''number''"
| "typeof (JString s) = ''string''"
| "typeof JObject = ''object''"

fun string_of :: "jsvalue \<Rightarrow> string" where
  "string_of (JString s) = s"
| "string_of v = []"

record ChatMessage =
  message_id :: string
  thread_id :: string
  user_id :: string
  content :: jsvalue
  timestamp :: string
  gps_lat :: "real option"
  gps_lon :: "real option"

record InterceptResult =
  allowed :: bool
  action :: string
  risk_score :: real
  labels :: "string list"
  nudge_message :: "string option"
  block_reason :: "string option"

text \<open>
  The body of \<open>interceptMessage\<close>, as a function of the configuration \<open>getConfig\<close>
  returned and of the message. Its clock readings only feed the log lines, which the
  model leaves out, and nothing in the body throws, so the \<open>catch\<close> branch (the
  \<open>interceptor_error\<close> result) is never taken from here.
\<close>

definition interceptMessage :: "InterceptorConfig \<Rightarrow> ChatMessage \<Rightarrow> InterceptResult" where
  "interceptMessage config message =
     (if \<not> truthy (content message) \<or> typeof (content message) \<noteq> ''string''
      then \<lparr>allowed = True, action = ''allow'', risk_score = 0.0, labels = [],
            nudge_message = None, block_reason = None\<rparr>
      else
        let text = string_of (content message) in
        if js_gt (Fin (real (length text))) (max_message_length config)
        then \<lparr>allowed = False, action = ''hard_block'', risk_score = 1.0, labels = [''message_too_long''],
              nudge_message = None,
              block_reason = Some (''Message exceeds maximum length of ''
                @ number_to_string (max_message_length config) @ '' characters'')\<rparr>
        else
          let matches = scanPatterns text;
              riskScore = calculateRiskScore matches;
              labels = generateLabels matches
          in if js_ge (Fin riskScore) (sync_threshold config)
             then \<lparr>allowed = False, action = ''hard_block'', risk_score = riskScore, labels = labels,
                   nudge_message = None, block_reason = Some (generateBlockReason matches)\<rparr>
             else if riskScore \<ge> dbl 0.4
             then \<lparr>allowed = True, action = ''nudge'', risk_score = riskScore, labels = labels,
                   nudge_message = generateNudgeMessage riskScore matches, block_reason = None\<rparr>
             else \<lparr>allowed = True, action = ''allow'', risk_score = riskScore,
                   labels = (if length labels > 0 then labels else []),
                   nudge_message = None, block_reason = None\<rparr>)"

subsection \<open>The state of the modules\<close>

text \<open>
  Two things outlive a call of \<open>interceptMessage\<close>. The pattern literals are objects of
  the module, each with its \<open>lastIndex\<close>, which matching a global pattern reads and
  writes; and \<open>getConfig\<close> keeps the record it loaded in \<open>cachedConfig\<close>. Below, the
  functions above are run on that state. The sixteen literals are different expressions,
  so the expression with its flag names the object.
\<close>

type_synonym last_indexes = "pattern \<Rightarrow> nat"

text \<open>
  The search of \<open>RegExpBuiltinExec\<close>: the matcher is tried at index \<open>i\<close>, then at the
  next index, until it succeeds or the index has passed the end of the input. The result
  is the index of the match and the index of its end. \<open>prev\<close> is the character before
  index \<open>i\<close> and the string is the input from \<open>i\<close> on.
\<close>

fun first_match :: "regex \<Rightarrow> bool \<Rightarrow> char option \<Rightarrow> nat \<Rightarrow> string \<Rightarrow> (nat \<times> nat) option" where
  "first_match r ic prev i [] =
     (case match_here r ic prev [] of None \<Rightarrow> None | Some rest \<Rightarrow> Some (i, i))"
| "first_match r ic prev i (ch # s) =
     (case match_here r ic prev (ch # s) of
        None \<Rightarrow> first_match r ic (Some ch) (Suc i) s
      | Some rest \<Rightarrow> Some (i, i + (Suc (length s) - length rest)))"

definition char_before :: "string \<Rightarrow> nat \<Rightarrow> char option" where
  "char_before input i = (if i = 0 then None else Some (input ! (i - 1)))"

text \<open>
  \<open>RegExpBuiltinExec\<close> for a pattern with the \<open>g\<close> flag: the search starts at the
  \<open>lastIndex\<close> of the pattern; a failure, or a \<open>lastIndex\<close> beyond the input, sets
  \<open>lastIndex\<close> to zero and gives \<open>null\<close>; a match sets \<open>lastIndex\<close> to its end
  index and gives the matched substring.
\<close>

definition regexp_exec :: "pattern \<Rightarrow> string \<Rightarrow> last_indexes \<Rightarrow> string option \<times> last_indexes" where
  "regexp_exec p input li =
     (let i = li p in
      if i > length input then (None, li(p := 0))
      else case first_match (expr p) (ignore_case p) (char_before input i) i (drop i input) of
             None \<Rightarrow> (None, li(p := 0))
           | Some (index, e) \<Rightarrow> (Some (take (e - index) (drop index input)), li(p := e)))"

text \<open>
  The loop of \<open>RegExp.prototype[Symbol.match]\<close> for a global pattern: \<open>exec\<close> is
  called until it gives \<open>null\<close>; each matched substring is collected, and after an empty
  match \<open>lastIndex\<close> is advanced by one. Every round leaves \<open>lastIndex\<close> larger than
  it found it, and \<open>exec\<close> gives \<open>null\<close> once it is beyond the input, so the loop ends.
\<close>

function match_loop :: "pattern \<Rightarrow> string \<Rightarrow> last_indexes \<Rightarrow> string list \<times> last_indexes" where
  "match_loop p input li =
     (case regexp_exec p input li of
        (None, li1) \<Rightarrow> ([], li1)
      | (Some matchStr, li1) \<Rightarrow>
          let li2 = (if matchStr = [] then li1(p := li1 p + 1) else li1);
              more = match_loop p input li2
          in (matchStr # fst more, snd more))"
  by pat_completeness auto
termination
proof (relation "measure (\<lambda>(p, input, li). length input + 1 - li p)")
  show "wf (measure (\<lambda>(p, input, li). length input + 1 - li p))" by simp
next
  fix p :: pattern and input :: string and li li1 li2 :: last_indexes and found :: "string option"
    and matchStr :: string
  assume ex: "(found, li1) = regexp_exec p input li" and f: "found = Some matchStr"
    and l2: "li2 = (if matchStr = [] then li1(p := li1 p + 1) else li1)"
  have bounds: "first_match r ic prev i rest = Some (b, e) \<Longrightarrow> i \<le> b \<and> b \<le> e \<and> e \<le> i + length rest"
    for r ic prev i rest b e
    by (induction r ic prev i rest rule: first_match.induct) (auto split: option.splits)
  have in_range: "li p \<le> length input" using ex f
    by (auto simp add: regexp_exec_def Let_def split: if_splits)
  obtain index e where fm: "first_match (expr p) (ignore_case p) (char_before input (li p)) (li p) (drop (li p) input) = Some (index, e)"
    and m: "matchStr = take (e - index) (drop index input)" and l1: "li1 = li(p := e)"
    using ex f by (auto simp add: regexp_exec_def Let_def split: if_splits option.splits)
  have b: "li p \<le> index" "index \<le> e" "e \<le> length input" using bounds [OF fm] in_range by simp_all
  have "li p < li2 p"
  proof (cases "matchStr = []")
    case True
    then show ?thesis using l2 l1 b by simp
  next
    case False
    then have "index < e" using m by (cases "e - index") simp_all
    then show ?thesis using False l2 l1 b by simp
  qed
  then show "((p, input, li2), (p, input, li)) \<in> measure (\<lambda>(p, input, li). length input + 1 - li p)"
    using in_range by simp
qed

declare match_loop.simps [simp del]

text \<open>
  \<open>String.prototype.match\<close> with a global pattern: \<open>lastIndex\<close> is set to zero and the
  loop is run. The array of matches is the list; \<open>null\<close> (no match) is the empty list.
\<close>

definition string_match_st :: "string \<Rightarrow> pattern \<Rightarrow> last_indexes \<Rightarrow> string list \<times> last_indexes" where
  "string_match_st input p li = match_loop p input (li(p := 0))"

definition collect_matches_st :: "pattern list \<Rightarrow> string \<Rightarrow> last_indexes \<Rightarrow> string list \<times> last_indexes" where
  "collect_matches_st regexes input li =
     foldl (\<lambda>acc regex.
              let matched = string_match_st input regex (snd acc)
              in (foldl (\<lambda>s m. set_add s (trim m)) (fst acc) (fst matched), snd matched))
       ([], li) regexes"

definition scan_category_st :: "pattern_type \<Rightarrow> string \<Rightarrow> last_indexes \<Rightarrow> PatternMatch list \<times> last_indexes" where
  "scan_category_st t input li =
     (let collected = collect_matches_st (PATTERNS t) input li;
          found_set = fst collected
      in (if length found_set > 0
          then [\<lparr>type = t, count = length found_set, samples = take 3 found_set\<rparr>]
          else [],
          snd collected))"

definition scanPatterns_st :: "string \<Rightarrow> last_indexes \<Rightarrow> PatternMatch list \<times> last_indexes" where
  "scanPatterns_st input li =
     (let r1 = scan_category_st phone input li;
          r2 = scan_category_st email input (snd r1);
          r3 = scan_category_st url input (snd r2);
          r4 = scan_category_st social input (snd r3);
          r5 = scan_category_st obfuscation input (snd r4)
      in (fst r1 @ fst r2 @ fst r3 @ fst r4 @ fst r5, snd r5))"

text \<open>\<open>getConfig\<close>: the cached record if there is one, else the record loaded, which is then cached.\<close>

definition getConfig ::
  "(string \<rightharpoonup> string) \<Rightarrow> InterceptorConfig option
     \<Rightarrow> (config_error + InterceptorConfig) \<times> InterceptorConfig option" where
  "getConfig env cached =
     (case cached of
        Some c \<Rightarrow> (Inr c, cached)
      | None \<Rightarrow> (case loadConfig env of
                   Inl error \<Rightarrow> (Inl error, None)
                 | Inr c \<Rightarrow> (Inr c, Some c)))"

record module_state =
  lastIndex :: last_indexes
  cachedConfig :: "InterceptorConfig option"

text \<open>
  A call of \<open>interceptMessage\<close> in an environment and a state of the modules. \<open>getConfig\<close>
  is called before the \<open>try\<close>, so its error is the error of the call.
\<close>

definition interceptMessage_st ::
  "(string \<rightharpoonup> string) \<Rightarrow> ChatMessage \<Rightarrow> module_state
     \<Rightarrow> (config_error + InterceptResult) \<times> module_state" where
  "interceptMessage_st env message st =
     (let loaded = getConfig env (cachedConfig st);
          st1 = st\<lparr>cachedConfig := snd loaded\<rparr>
      in case fst loaded of
           Inl error \<Rightarrow> (Inl error, st1)
         | Inr config \<Rightarrow>
             if \<not> truthy (content message) \<or> typeof (content message) \<noteq> ''string''
             then (Inr \<lparr>allowed = True, action = ''allow'', risk_score = 0.0, labels = [],
                        nudge_message = None, block_reason = None\<rparr>, st1)
             else
               let text = string_of (content message) in
               if js_gt (Fin (real (length text))) (max_message_length config)
               then (Inr \<lparr>allowed = False, action = ''hard_block'', risk_score = 1.0,
                          labels = [''message_too_long''], nudge_message = None,
                          block_reason = Some (''Message exceeds maximum length of ''
                            @ number_to_string (max_message_length config) @ '' characters'')\<rparr>, st1)
               else
                 let scanned = scanPatterns_st text (lastIndex st1);
                     matches = fst scanned;
                     st2 = st1\<lparr>lastIndex := snd scanned\<rparr>;
                     riskScore = calculateRiskScore matches;
                     labels = generateLabels matches
                 in if js_ge (Fin riskScore) (sync_threshold config)
                    then (Inr \<lparr>allowed = False, action = ''hard_block'', risk_score = riskScore,
                               labels = labels, nudge_message = None,
                               block_reason = Some (generateBlockReason matches)\<rparr>, st2)
                    else if riskScore \<ge> dbl 0.4
                    then (Inr \<lparr>allowed = True, action = ''nudge'', risk_score = riskScore,
                               labels = labels,
                               nudge_message = generateNudgeMessage riskScore matches,
                               block_reason = None\<rparr>, st2)
                    else (Inr \<lparr>allowed = True, action = ''allow'', risk_score = riskScore,
                               labels = (if length labels > 0 then labels else []),
                               nudge_message = None, block_reason = None\<rparr>, st2))"

section \<open>Circuit breaker\<close>

datatype CircuitState = CLOSED | OPEN | HALF_OPEN

text \<open>
  The counters and times of the breaker are integers (counts from zero, and the
  millisecond readings of \<open>Date.now()\<close>). The configuration is the one the constructor
  stores, with \<open>halfOpenMaxAttempts\<close> filled in.
\<close>

record CircuitBreakerConfig =
  threshold :: int
  resetTimeout :: int
  halfOpenMaxAttempts :: int

record CircuitBreaker =
  state :: CircuitState
  failureCount :: int
  successCount :: int
  lastFailureTime :: int
  config :: CircuitBreakerConfig

text \<open>The constructor: \<open>halfOpenMaxAttempts: config.halfOpenMaxAttempts || 1\<close>.\<close>

definition new_CircuitBreaker :: "int \<Rightarrow> int \<Rightarrow> int option \<Rightarrow> CircuitBreaker" where
  "new_CircuitBreaker thr reset attempts =
     \<lparr>state = CLOSED, failureCount = 0, successCount = 0, lastFailureTime = 0,
      config = \<lparr>threshold = thr, resetTimeout = reset,
                halfOpenMaxAttempts = (case attempts of None \<Rightarrow> 1 | Some n \<Rightarrow> if n = 0 then 1 else n)\<rparr>\<rparr>"

definition onSuccess :: "CircuitBreaker \<Rightarrow> CircuitBreaker" where
  "onSuccess b =
     (if state b = HALF_OPEN
      then (let b1 = b\<lparr>successCount := successCount b + 1\<rparr>
            in if successCount b1 \<ge> halfOpenMaxAttempts (config b1)
               then b1\<lparr>state := CLOSED, failureCount := 0, successCount := 0\<rparr>
               else b1)
      else if state b = CLOSED
      then (if failureCount b > 0 then b\<lparr>failureCount := 0\<rparr> else b)
      else b)"

definition onFailure :: "int \<Rightarrow> CircuitBreaker \<Rightarrow> CircuitBreaker" where
  "onFailure now b =
     (let b1 = b\<lparr>failureCount := failureCount b + 1, lastFailureTime := now\<rparr>
      in if state b1 = HALF_OPEN
         then b1\<lparr>state := OPEN, successCount := 0\<rparr>
         else if state b1 = CLOSED \<and> failureCount b1 \<ge> threshold (config b1)
         then b1\<lparr>state := OPEN\<rparr>
         else b1)"

text \<open>
  The protected operation acts on the world outside the breaker (type \<open>'w\<close>) and returns a
  value or throws. \<open>execute\<close> returns the value, re-throws the error, or returns
  \<open>undefined\<close> without calling the operation, which then leaves the world as it was.
  \<open>now\<close> reads the clock of the world. A call runs to its end before the next one starts.
\<close>

datatype ('e, 'a) outcome = Undefined | Returned 'a | Thrown 'e

type_synonym ('w, 'e, 'a) operation = "'w \<Rightarrow> ('e + 'a) \<times> 'w"

definition execute ::
  "('w \<Rightarrow> int) \<Rightarrow> ('w, 'e, 'a) operation \<Rightarrow> CircuitBreaker \<times> 'w \<Rightarrow> ('e, 'a) outcome \<times> CircuitBreaker \<times> 'w" where
  "execute now fn bw =
     (let b = fst bw; w = snd bw in
      if state b = OPEN \<and> \<not> (now w - lastFailureTime b \<ge> resetTimeout (config b))
      then (Undefined, b, w)
      else
        let b1 = (if state b = OPEN then b\<lparr>state := HALF_OPEN, successCount := 0\<rparr> else b) in
        if state b1 = HALF_OPEN \<and> successCount b1 \<ge> halfOpenMaxAttempts (config b1)
        then (Undefined, b1, w)
        else (case fn w of
                (Inr result, w') \<Rightarrow> (Returned result, onSuccess b1, w')
              | (Inl error, w') \<Rightarrow> (Thrown error, onFailure (now w') b1, w')))"

text \<open>A sequence of calls, one after the other.\<close>

fun execute_all ::
  "('w \<Rightarrow> int) \<Rightarrow> ('w, 'e, 'a) operation list \<Rightarrow> CircuitBreaker \<times> 'w \<Rightarrow> CircuitBreaker \<times> 'w" where
  "execute_all now [] bw = bw"
| "execute_all now (fn # fns) bw = execute_all now fns (snd (execute now fn bw))"

definition fails :: "('w, 'e, 'a) operation \<Rightarrow> bool" where
  "fails fn = (\<forall>w. isl (fst (fn w)))"

definition succeeds :: "('w, 'e, 'a) operation \<Rightarrow> bool" where
  "succeeds fn = (\<forall>w. \<not> isl (fst (fn w)))"

section \<open>Request dispatcher\<close>

text \<open>
  An incoming frame either fails to parse as a request object or gives the fields the
  handler reads. \<open>message\<close> is absent when the field is missing or falsy.
\<close>

record InterceptorRequest =
  request_type :: string
  message :: "ChatMessage option"
  request_id :: "string option"

datatype frame = Malformed | Request InterceptorRequest

datatype response =
    InterceptorResponse string InterceptResult int
  | ErrorResponse "string option" string string

text \<open>
  What the handler acts on besides the breaker: the clock, the frames sent on the socket,
  the events handed to the emitter, and the messages the scorer was called on (kept to tell
  whether it ran).
\<close>

record world =
  clock :: int
  sent :: "response list"
  emitted :: "(ChatMessage \<times> InterceptResult) list"
  scored :: "ChatMessage list"

definition sendError :: "string \<Rightarrow> string option \<Rightarrow> world \<Rightarrow> world" where
  "sendError msg requestId w = w\<lparr>sent := sent w @ [ErrorResponse requestId ''processing_error'' msg]\<rparr>"

definition breaker_open_result :: InterceptResult where
  "breaker_open_result =
     \<lparr>allowed = True, action = ''allow'', risk_score = 0.0, labels = [''circuit_breaker_open''],
      nudge_message = None, block_reason = None\<rparr>"

definition interceptor_error_result :: InterceptResult where
  "interceptor_error_result =
     \<lparr>allowed = True, action = ''allow'', risk_score = 0.0, labels = [''interceptor_error''],
      nudge_message = None, block_reason = None\<rparr>"

text \<open>
  \<open>handleMessage\<close>, with the scorer it runs under the breaker as a parameter (a value or
  a thrown error for each message) and \<open>uuid\<close> the identifier \<open>uuidv4()\<close> would mint.
  \<open>request_id || uuidv4()\<close> also replaces an empty identifier. The clock does not advance
  while one frame is handled, and \<open>ws.send\<close> succeeds.
\<close>

definition call_scorer ::
  "(ChatMessage \<Rightarrow> string + InterceptResult) \<Rightarrow> ChatMessage \<Rightarrow> (world, string, InterceptResult) operation" where
  "call_scorer scorer msg w = (scorer msg, w\<lparr>scored := scored w @ [msg]\<rparr>)"

definition request_id_or :: "string \<Rightarrow> InterceptorRequest \<Rightarrow> string" where
  "request_id_or uuid request =
     (if request_id request = None \<or> request_id request = Some [] then uuid else the (request_id request))"

definition handleMessage_with ::
  "(ChatMessage \<Rightarrow> string + InterceptResult) \<Rightarrow> string \<Rightarrow> frame
     \<Rightarrow> CircuitBreaker \<times> world \<Rightarrow> CircuitBreaker \<times> world" where
  "handleMessage_with scorer uuid fr bw =
     (let b = fst bw; w = snd bw; startTime = clock w in
      case fr of
        Malformed \<Rightarrow> (b, sendError ''Internal server error'' None w)
      | Request request \<Rightarrow>
          (if request_type request \<noteq> ''intercept''
           then (b, sendError ''Invalid request type'' (request_id request) w)
           else if message request = None \<or> \<not> truthy (content (the (message request)))
           then (b, sendError ''Missing message content'' (request_id request) w)
           else
             let msg = the (message request);
                 requestId = request_id_or uuid request;
                 executed = execute clock (call_scorer scorer msg) (b, w);
                 result = (case fst executed of
                             Undefined \<Rightarrow> breaker_open_result
                           | Returned r \<Rightarrow> r
                           | Thrown error \<Rightarrow> interceptor_error_result);
                 b' = fst (snd executed);
                 w1 = snd (snd executed);
                 w2 = w1\<lparr>emitted := emitted w1 @ [(msg, result)]\<rparr>;
                 processingMs = clock w2 - startTime
             in (b', w2\<lparr>sent := sent w2 @ [InterceptorResponse requestId result processingMs]\<rparr>)))"

text \<open>The scorer of the service is \<open>interceptMessage\<close>, which returns a result on every path.\<close>

definition handleMessage ::
  "InterceptorConfig \<Rightarrow> string \<Rightarrow> frame \<Rightarrow> CircuitBreaker \<times> world \<Rightarrow> CircuitBreaker \<times> world" where
  "handleMessage cfg = handleMessage_with (\<lambda>msg. Inr (interceptMessage cfg msg))"

section \<open>The scoring rule as the specification words it\<close>

text \<open>
  The specification gives the weights (phone 0.85, email 0.80, url 0.50, social 0.40,
  obfuscation 0.15) and the score of a list of matches: 0 when nothing matched, otherwise
  \<open>min(max(maxWeight * 0.85, totalContribution * 0.7) + multiTypeBoost, 1.0)\<close>, where
  \<open>maxWeight\<close> is the largest weight of a matched category, \<open>totalContribution\<close> the sum
  over the matched categories of \<open>weight * min(count, 3) / 3\<close> and \<open>multiTypeBoost\<close> is
  \<open>0.10 * (n - 1)\<close> for \<open>n > 1\<close> matched categories. The numbers are doubles; the sum
  adds the categories in the order of the matches.
\<close>

fun spec_weight :: "pattern_type \<Rightarrow> real" where
  "spec_weight phone = dbl 0.85"
| "spec_weight email = dbl 0.80"
| "spec_weight url = dbl 0.50"
| "spec_weight social = dbl 0.40"
| "spec_weight obfuscation = dbl 0.15"

definition spec_contribution :: "PatternMatch \<Rightarrow> real" where
  "spec_contribution m = double_div (double_mul (spec_weight (type m)) (real (min (count m) 3))) 3"



section \<open>Example inputs\<close>

text \<open>The configuration of an environment that sets nothing, and a message as the tests build it.\<close>

definition default_config :: InterceptorConfig where
  "default_config =
     \<lparr>sync_threshold = Fin (dbl 0.65), redis_host = ''localhost'', redis_port = Fin 6379,
      detection_host = ''localhost'', detection_port = Fin 8000, circuit_breaker_threshold = Fin 5,
      circuit_breaker_reset_ms = Fin 30000, max_message_length = Fin 10000\<rparr>"

definition chat_message :: "string \<Rightarrow> jsvalue \<Rightarrow> ChatMessage" where
  "chat_message i c =
     \<lparr>message_id = i, thread_id = ''thread-001'', user_id = ''user-001'', content = c,
      timestamp = ''2024-01-01T00:00:00.000Z'', gps_lat = None, gps_lon = None\<rparr>"

text \<open>
  A breaker of the service (threshold 5, reset after 30000 ms, 3 probes) that opened at
  time 0, a request for a message, and a world at a given time with nothing sent yet.
\<close>

definition open_breaker :: CircuitBreaker where
  "open_breaker =
     \<lparr>state = OPEN, failureCount = 5, successCount = 0, lastFailureTime = 0,
      config = \<lparr>threshold = 5, resetTimeout = 30000, halfOpenMaxAttempts = 3\<rparr>\<rparr>"

definition intercept_request :: "string \<Rightarrow> ChatMessage \<Rightarrow> InterceptorRequest" where
  "intercept_request i m = \<lparr>request_type = ''intercept'', message = Some m, request_id = Some i\<rparr>"

definition world_at :: "int \<Rightarrow> world" where
  "world_at t = \<lparr>clock = t, sent = [], emitted = [], scored = []\<rparr>"

text \<open>
  A breaker with threshold 2, reset after 1000 ms and 2 probes, the same breaker after two
  failures at times 1 and 2, and two operations on a world that is only a clock: each takes
  one millisecond, one throws and one returns.
\<close>

definition small_breaker :: CircuitBreaker where
  "small_breaker = new_CircuitBreaker 2 1000 (Some 2)"

definition tripped_breaker :: CircuitBreaker where
  "tripped_breaker =
     \<lparr>state = OPEN, failureCount = 2, successCount = 0, lastFailureTime = 2,
      config = \<lparr>threshold = 2, resetTimeout = 1000, halfOpenMaxAttempts = 2\<rparr>\<rparr>"

definition failing :: "(int, string, bool) operation" where
  "failing t = (Inl ''scorer down'', t + 1)"

definition succeeding :: "(int, string, bool) operation" where
  "succeeding t = (Inr True, t + 1)"

section \<open>The step count of the repeat matcher\<close>

lemma continues_forwardD:
  "continues_forward m \<Longrightarrow> (\<And>y. length (snd y) \<le> length (snd x) \<Longrightarrow> c y = c' y) \<Longrightarrow> m x c = m x c'"
  unfolding continues_forward_def by blast

lemma repeat_matcher_cong:
  assumes "continues_forward m"
    and "\<And>y. length (snd y) \<le> length (snd x) \<Longrightarrow> c y = c' y"
  shows "repeat_matcher f m mn mx x c = repeat_matcher f m mn mx x c'"
  using assms(2)
proof (induction f arbitrary: mn mx x)
  case 0
  show ?case by simp
next
  case (Suc f)
  let ?d = "\<lambda>k y. if mn = 0 \<and> length (snd y) = length (snd x) then None
                  else repeat_matcher f m (mn - 1) (map_option (\<lambda>n. n - 1) mx) y k"
  have cx: "c x = c' x" using Suc.prems by simp
  have "?d c y = ?d c' y" if "length (snd y) \<le> length (snd x)" for y
    using Suc.IH [of y "mn - 1" "map_option (\<lambda>n. n - 1) mx"] Suc.prems that by simp
  then have md: "m x (?d c) = m x (?d c')"
    by (rule continues_forwardD [OF assms(1)])
  have unfold: "repeat_matcher (Suc f) m mn mx x k =
      (if mx = Some 0 then k x
       else if mn \<noteq> 0 then m x (?d k)
       else (case m x (?d k) of Some z \<Rightarrow> Some z | None \<Rightarrow> k x))" for k
    by (simp add: Let_def)
  show ?case by (simp only: unfold md cx)
qed

lemma repeat_matcher_fuel:
  assumes "continues_forward m"
    and "mn + length (snd x) < f" and "mn + length (snd x) < f'"
  shows "repeat_matcher f m mn mx x c = repeat_matcher f' m mn mx x c"
  using assms(2,3)
proof (induction f arbitrary: f' mn mx x)
  case 0
  then show ?case by simp
next
  case (Suc g)
  then obtain g' where f': "f' = Suc g'" by (cases f') simp_all
  let ?d = "\<lambda>k y. if mn = 0 \<and> length (snd y) = length (snd x) then None
                  else repeat_matcher k m (mn - 1) (map_option (\<lambda>n. n - 1) mx) y c"
  have "?d g y = ?d g' y" if le: "length (snd y) \<le> length (snd x)" for y
  proof (cases "mn = 0 \<and> length (snd y) = length (snd x)")
    case True
    then show ?thesis by simp
  next
    case False
    then have "mn - 1 + length (snd y) < mn + length (snd x)" using le by auto
    then have "mn - 1 + length (snd y) < g" "mn - 1 + length (snd y) < g'"
      using Suc.prems f' by simp_all
    then have "repeat_matcher g m (mn - 1) (map_option (\<lambda>n. n - 1) mx) y c
             = repeat_matcher g' m (mn - 1) (map_option (\<lambda>n. n - 1) mx) y c"
      by (rule Suc.IH)
    then show ?thesis by simp
  qed
  then have md: "m x (?d g) = m x (?d g')"
    by (rule continues_forwardD [OF assms(1)])
  have unfold: "repeat_matcher (Suc k) m mn mx x c =
      (if mx = Some 0 then c x
       else if mn \<noteq> 0 then m x (?d k)
       else (case m x (?d k) of Some z \<Rightarrow> Some z | None \<Rightarrow> c x))" for k
    by (simp add: Let_def)
  show ?case by (simp only: f' unfold md)
qed

lemma compile_continues_forward: "continues_forward (compile r ic)"
proof (induction r)
  case (Cls negated items)
  show ?case unfolding continues_forward_def by (auto split: list.splits)
next
  case Dot
  show ?case unfolding continues_forward_def by (auto split: list.splits)
next
  case WordBoundary
  show ?case unfolding continues_forward_def by auto
next
  case Empty
  show ?case unfolding continues_forward_def by auto
next
  case (Seq r1 r2)
  show ?case unfolding continues_forward_def
  proof (intro allI impI)
    fix x :: mstate and c c' :: continuation
    assume agree: "\<forall>y. length (snd y) \<le> length (snd x) \<longrightarrow> c y = c' y"
    have "compile r2 ic y c = compile r2 ic y c'" if "length (snd y) \<le> length (snd x)" for y
    proof (rule continues_forwardD [OF Seq.IH(2)])
      fix z :: mstate
      assume "length (snd z) \<le> length (snd y)"
      then have "length (snd z) \<le> length (snd x)" using that by simp
      then show "c z = c' z" using agree by blast
    qed
    then have "compile r1 ic x (\<lambda>y. compile r2 ic y c) = compile r1 ic x (\<lambda>y. compile r2 ic y c')"
      by (rule continues_forwardD [OF Seq.IH(1)])
    then show "compile (Seq r1 r2) ic x c = compile (Seq r1 r2) ic x c'" by simp
  qed
next
  case (Alt r1 r2)
  show ?case unfolding continues_forward_def
  proof (intro allI impI)
    fix x :: mstate and c c' :: continuation
    assume agree: "\<forall>y. length (snd y) \<le> length (snd x) \<longrightarrow> c y = c' y"
    have "compile r1 ic x c = compile r1 ic x c'" "compile r2 ic x c = compile r2 ic x c'"
      using agree by (auto intro: continues_forwardD [OF Alt.IH(1)] continues_forwardD [OF Alt.IH(2)])
    then show "compile (Alt r1 r2) ic x c = compile (Alt r1 r2) ic x c'"
      by (simp split: option.splits)
  qed
next
  case (Rep mn mx r)
  show ?case unfolding continues_forward_def
  proof (intro allI impI)
    fix x :: mstate and c c' :: continuation
    assume agree: "\<forall>y. length (snd y) \<le> length (snd x) \<longrightarrow> c y = c' y"
    have "repeat_matcher (mn + length (snd x) + 1) (compile r ic) mn mx x c
        = repeat_matcher (mn + length (snd x) + 1) (compile r ic) mn mx x c'"
      by (rule repeat_matcher_cong [OF Rep.IH]) (use agree in blast)
    then show "compile (Rep mn mx r) ic x c = compile (Rep mn mx r) ic x c'"
      by (simp only: compile.simps)
  qed
qed

lemma repeat_matcher_enough:
  "mn + length (snd x) < f \<Longrightarrow>
     compile (Rep mn mx r) ic x c = repeat_matcher f (compile r ic) mn mx x c"
proof -
  assume "mn + length (snd x) < f"
  then have "repeat_matcher (mn + length (snd x) + 1) (compile r ic) mn mx x c
        = repeat_matcher f (compile r ic) mn mx x c"
    by (intro repeat_matcher_fuel [OF compile_continues_forward]) simp_all
  then show ?thesis by (simp only: compile.simps)
qed

section \<open>Rounding to a double\<close>

lemma bit_length_bounds:
  "0 < n \<Longrightarrow> 2 ^ (bit_length n - 1) \<le> n \<and> n < 2 ^ bit_length n"
proof (induction n rule: bit_length.induct)
  case (1 n)
  show ?case
  proof (cases "n = 1")
    case True
    then show ?thesis by (simp add: bit_length.simps [of 1] bit_length.simps [of 0])
  next
    case False
    with "1.prems" have half: "0 < n div 2" by simp
    with "1.IH" "1.prems" have ih: "2 ^ (bit_length (n div 2) - 1) \<le> n div 2" "n div 2 < 2 ^ bit_length (n div 2)"
      by simp_all
    have bl: "bit_length n = Suc (bit_length (n div 2))"
      using "1.prems" by (subst bit_length.simps) simp
    have pos: "0 < bit_length (n div 2)" using half by (subst bit_length.simps) simp
    then obtain j where j: "bit_length (n div 2) = Suc j" by (cases "bit_length (n div 2)") simp_all
    have "2 * 2 ^ j \<le> n" using ih(1) j by simp
    moreover have "n < 2 * 2 ^ Suc j" using ih(2) j by simp
    ultimately show ?thesis by (simp add: bl j)
  qed
qed

lemma pow2_pos: "0 < pow2 e"
  by (simp add: pow2_def)

lemma round_half_even_nonneg: "0 \<le> y \<Longrightarrow> 0 \<le> round_half_even y"
  by (simp add: round_half_even_def Let_def)

lemma round_half_even_ge_floor: "\<lfloor>y\<rfloor> \<le> round_half_even y"
  by (simp add: round_half_even_def Let_def)

lemma round_half_even_of_int: "round_half_even (of_int k) = k"
  by (simp add: round_half_even_def Let_def)

lemma rounded_nonneg: "0 \<le> real_of_int (round_half_even (\<bar>x\<bar> / pow2 e)) * pow2 e"
  using pow2_pos [of e] round_half_even_nonneg [of "\<bar>x\<bar> / pow2 e"]
  by (intro mult_nonneg_nonneg) simp_all

lemma dbl_nonneg: "0 \<le> x \<Longrightarrow> 0 \<le> dbl x"
  using rounded_nonneg [of x "max (floor_log2 \<bar>x\<bar> - 52) (- 1074)"]
  by (simp add: dbl_def Let_def sgn_if mult.assoc)

lemma dbl_nonpos: "x \<le> 0 \<Longrightarrow> dbl x \<le> 0"
  using rounded_nonneg [of x "max (floor_log2 \<bar>x\<bar> - 52) (- 1074)"]
  by (simp add: dbl_def Let_def sgn_if mult.assoc)

lemma dbl_minus: "dbl (- x) = - dbl x"
  by (simp add: dbl_def Let_def sgn_if)

lemma floor_log2_ge1:
  assumes "1 \<le> x"
  shows "pow2 (floor_log2 x) \<le> x" and "0 \<le> floor_log2 x"
    and "x < 2 ^ j \<Longrightarrow> floor_log2 x < int j" and "2 ^ j \<le> x \<Longrightarrow> int j \<le> floor_log2 x"
proof -
  have fl: "0 < \<lfloor>x\<rfloor>" using assms by simp
  note b = bit_length_bounds [OF fl]
  have pos: "0 < bit_length \<lfloor>x\<rfloor>" using fl by (subst bit_length.simps) simp
  have eq: "floor_log2 x = int (bit_length \<lfloor>x\<rfloor> - 1)" using assms pos by (simp add: floor_log2_def)
  show "0 \<le> floor_log2 x" by (simp add: eq)
  have "real_of_int (2 ^ (bit_length \<lfloor>x\<rfloor> - 1)) \<le> real_of_int \<lfloor>x\<rfloor>"
    using b by (simp only: of_int_le_iff)
  also have "\<dots> \<le> x" by simp
  finally show "pow2 (floor_log2 x) \<le> x" by (simp add: eq pow2_def)
  show "floor_log2 x < int j" if "x < 2 ^ j"
  proof -
    have "\<lfloor>x\<rfloor> < 2 ^ j" using that by (simp add: floor_less_iff)
    with b have "(2::int) ^ (bit_length \<lfloor>x\<rfloor> - 1) < 2 ^ j" by linarith
    then have "bit_length \<lfloor>x\<rfloor> - 1 < j" by (rule power_less_imp_less_exp [rotated]) simp
    then show ?thesis by (simp add: eq)
  qed
  show "int j \<le> floor_log2 x" if "2 ^ j \<le> x"
  proof -
    have "2 ^ j \<le> \<lfloor>x\<rfloor>" using that by (simp add: le_floor_iff)
    with b have "(2::int) ^ j < 2 ^ bit_length \<lfloor>x\<rfloor>" by linarith
    then have "j < bit_length \<lfloor>x\<rfloor>" by (rule power_less_imp_less_exp [rotated]) simp
    then show ?thesis by (simp add: eq)
  qed
qed

lemma dbl_of_int:
  assumes "0 \<le> k" and "k < 2 ^ 53"
  shows "dbl (of_int k) = of_int k"
proof (cases "k = 0")
  case True
  then show ?thesis by (simp add: dbl_def)
next
  case False
  with assms have k: "1 \<le> real_of_int k" "real_of_int k < 2 ^ 53" by simp_all
  define e where "e = max (floor_log2 (real_of_int k) - 52) (- 1074)"
  have "floor_log2 (real_of_int k) < int 53" using floor_log2_ge1(3) [OF k(1), of 53] k(2) by simp
  then have e: "e \<le> 0" using k(1) by (simp add: e_def)
  then have p: "pow2 e = 1 / 2 ^ nat (- e)" by (simp add: pow2_def)
  have "real_of_int k / pow2 e = real_of_int (k * 2 ^ nat (- e))" using k(1) by (simp add: p)
  then have "round_half_even (real_of_int k / pow2 e) = k * 2 ^ nat (- e)"
    by (simp only: round_half_even_of_int)
  then have "dbl (of_int k) = of_int (k * 2 ^ nat (- e)) * pow2 e"
    using k(1) False by (simp add: dbl_def Let_def e_def [symmetric] sgn_if)
  then show ?thesis by (simp add: p)
qed

lemma dbl_large:
  assumes "2 ^ 53 \<le> x"
  shows "2 ^ 53 \<le> dbl x"
proof -
  have x1: "1 \<le> x" using assms by (rule order_trans [rotated]) simp
  define l where "l = floor_log2 x"
  have l: "53 \<le> l" using floor_log2_ge1(4) [OF x1, of 53] assms by (simp add: l_def)
  define e where "e = max (floor_log2 x - 52) (- 1074)"
  have e: "e = l - 52" using l x1 by (simp add: e_def l_def)
  have pe: "pow2 e = 2 ^ nat (l - 52)" using l by (simp add: e pow2_def)
  have pl: "pow2 l = 2 ^ nat l" using l by (simp add: pow2_def)
  have split: "(2::real) ^ nat l = 2 ^ 52 * 2 ^ nat (l - 52)"
  proof -
    have "nat l = 52 + nat (l - 52)" using l by simp
    then show ?thesis by (simp only: power_add)
  qed
  have "pow2 l \<le> x" using floor_log2_ge1(1) [OF x1] by (simp add: l_def)
  then have "2 ^ 52 \<le> x / pow2 e" using x1 by (simp add: pe pl split pos_le_divide_eq)
  then have "2 ^ 52 \<le> \<lfloor>x / pow2 e\<rfloor>" by (simp add: le_floor_iff)
  then have m: "2 ^ 52 \<le> round_half_even (x / pow2 e)"
    using round_half_even_ge_floor [of "x / pow2 e"] by linarith
  have d: "dbl x = real_of_int (round_half_even (x / pow2 e)) * pow2 e"
    using x1 by (simp add: dbl_def Let_def e_def [symmetric] sgn_if)
  have "(2::real) ^ 53 \<le> 2 ^ 52 * 2 ^ nat (l - 52)"
  proof -
    have "(2::real) ^ 1 \<le> 2 ^ nat (l - 52)" using l by (intro power_increasing) simp_all
    then show ?thesis by simp
  qed
  also have "\<dots> \<le> real_of_int (round_half_even (x / pow2 e)) * pow2 e"
  proof -
    have "real_of_int (2 ^ 52) \<le> real_of_int (round_half_even (x / pow2 e))"
      using m by (simp only: of_int_le_iff)
    then have "(2::real) ^ 52 \<le> real_of_int (round_half_even (x / pow2 e))" by simp
    then show ?thesis unfolding pe by (intro mult_right_mono) simp_all
  qed
  finally show ?thesis by (simp add: d)
qed

section \<open>Scoring\<close>

lemmas dbl_eval = dbl_def floor_log2_def bit_length.simps pow2_def round_half_even_def Let_def
  double_mul_def double_div_def double_add_def

lemma weight_values:
  "PATTERN_WEIGHTS phone = 7656119366529843 / 9007199254740992"
  "PATTERN_WEIGHTS email = 3602879701896397 / 4503599627370496"
  "PATTERN_WEIGHTS url = 1 / 2"
  "PATTERN_WEIGHTS social = 3602879701896397 / 9007199254740992"
  "PATTERN_WEIGHTS obfuscation = 5404319552844595 / 36028797018963968"
  by (simp_all add: dbl_eval)

lemma weight_pos: "0 < PATTERN_WEIGHTS t"
  by (cases t; simp del: PATTERN_WEIGHTS.simps add: weight_values)

lemma weight_spec: "PATTERN_WEIGHTS t = spec_weight t"
  by (cases t) simp_all


lemma score_step_eq:
  "score_step acc m = (max (fst acc) (spec_weight (type m)), double_add (snd acc) (spec_contribution m))"
  using weight_pos [of "type m"] by (simp add: score_step_def Let_def weight_spec spec_contribution_def)

lemma foldl_score_step:
  "foldl score_step (a, b) ms =
     (foldl max a (map (\<lambda>m. spec_weight (type m)) ms), foldl double_add b (map spec_contribution ms))"
  by (induction ms arbitrary: a b) (simp_all add: score_step_eq)




lemma double_ops_nonneg:
  "0 \<le> a \<Longrightarrow> 0 \<le> b \<Longrightarrow> 0 \<le> double_mul a b"
  "0 \<le> a \<Longrightarrow> 0 \<le> b \<Longrightarrow> 0 \<le> double_add a b"
  "0 \<le> a \<Longrightarrow> 0 < b \<Longrightarrow> 0 \<le> double_div a b"
  by (simp_all add: double_mul_def double_add_def double_div_def dbl_nonneg)

lemma foldl_max_nonneg: "(0::real) \<le> a \<Longrightarrow> 0 \<le> foldl max a xs"
  by (induction xs arbitrary: a) (simp_all add: le_max_iff_disj)

lemma calculateRiskScore_bounds: "0 \<le> calculateRiskScore ms \<and> calculateRiskScore ms \<le> 1"
proof (cases "ms = []")
  case True
  then show ?thesis by (simp add: calculateRiskScore_def)
next
  case False
  define mw where "mw = fst (foldl score_step (0.0, 0.0) ms)"
  define tc where "tc = snd (foldl score_step (0.0, 0.0) ms)"
  define boost where "boost = (if length ms > 1 then double_mul (dbl 0.10) (real (length ms) - 1) else 0)"
  have "0 \<le> mw" by (simp add: mw_def foldl_score_step foldl_max_nonneg)
  then have "0 \<le> double_mul mw (dbl 0.85)" by (rule double_ops_nonneg(1)) (rule dbl_nonneg, simp)
  then have m: "0 \<le> max (double_mul mw (dbl 0.85)) (double_mul tc (dbl 0.7))" by (simp add: le_max_iff_disj)
  have "0 \<le> real (length ms) - 1" using False by (cases ms) simp_all
  then have "0 \<le> double_mul (dbl 0.10) (real (length ms) - 1)"
    by (intro double_ops_nonneg(1) dbl_nonneg) simp_all
  then have b: "0 \<le> boost" by (simp add: boost_def)
  have raw: "0 \<le> double_add (max (double_mul mw (dbl 0.85)) (double_mul tc (dbl 0.7))) boost"
    using m b by (rule double_ops_nonneg)
  have "calculateRiskScore ms = min (double_add (max (double_mul mw (dbl 0.85)) (double_mul tc (dbl 0.7))) boost) 1.0"
    using False by (simp add: calculateRiskScore_def Let_def mw_def tc_def boost_def)
  then show ?thesis using raw by simp
qed

lemma single_scores:
  assumes "c \<le> 3"
  shows "calculateRiskScore [\<lparr>type = t, count = c, samples = []\<rparr>] = double_mul (PATTERN_WEIGHTS t) (dbl 0.85)"
proof -
  from assms have "c = 0 \<or> c = 1 \<or> c = 2 \<or> c = 3" by arith
  then show ?thesis
    by (cases t)
      ((elim disjE; simp add: calculateRiskScore_def score_step_def weight_values dbl_eval cong: let_weak_cong)+)
qed

lemma single_score: "calculateRiskScore [pm] = double_mul (PATTERN_WEIGHTS (type pm)) (dbl 0.85)"
proof -
  define c where "c = min (count pm) 3"
  have "calculateRiskScore [pm] = calculateRiskScore [\<lparr>type = type pm, count = c, samples = []\<rparr>]"
    by (simp add: calculateRiskScore_def score_step_def Let_def c_def)
  moreover have "c \<le> 3" by (simp add: c_def)
  ultimately show ?thesis using single_scores by simp
qed

lemma single_score_values:
  "double_mul (PATTERN_WEIGHTS phone) (dbl 0.85) = dbl 0.7224999999999999"
  "double_mul (PATTERN_WEIGHTS email) (dbl 0.85) = dbl 0.68"
  "double_mul (PATTERN_WEIGHTS url) (dbl 0.85) = dbl 0.425"
  "double_mul (PATTERN_WEIGHTS social) (dbl 0.85) = dbl 0.34"
  "double_mul (PATTERN_WEIGHTS obfuscation) (dbl 0.85) = dbl 0.1275"
  by (simp_all add: weight_values dbl_eval)

section \<open>Pattern scanning\<close>

lemma scanPatterns_empty: "scanPatterns [] = []"
  by code_simp

lemma scan_category_types: "\<forall>m \<in> set (scan_category t s). type m = t"
  by (simp add: scan_category_def Let_def)

lemma scan_category_length: "length (scan_category t s) \<le> 1"
  by (simp add: scan_category_def Let_def)



lemma risk_score_scored:
  assumes "content m = JString s" and "s \<noteq> []"
    and "\<not> js_gt (Fin (real (length s))) (max_message_length cfg)"
  shows "risk_score (interceptMessage cfg m) = calculateRiskScore (scanPatterns s)"
  using assms by (simp add: interceptMessage_def Let_def)


lemma scan_text_me_later:
  "scanPatterns ''Text me later'' = [\<lparr>type = social, count = 1, samples = [''Text me'']\<rparr>]"
  by code_simp

lemma scan_us_phone:
  "scanPatterns ''555-123-4567'' = [\<lparr>type = phone, count = 1, samples = [''555-123-4567'']\<rparr>]"
  by code_simp

section \<open>Reading the configuration\<close>

lemmas parse_eval = parseFloat_def parseInt_def read_sign_def is_space_def is_digit_def in_range_def
  code_unit_def digits_value_def digit_value_def read_exponent_def scale10_def to_number_def

lemma parseFloat_default: "parseFloat ''0.65'' = Fin (dbl 0.65)"
  by (simp add: parse_eval dbl_eval cong: let_weak_cong)

lemma parseFloat_09: "parseFloat ''0.9'' = Fin (dbl 0.9)"
  by (simp add: parse_eval dbl_eval cong: let_weak_cong)

lemma parseFloat_15: "parseFloat ''1.5'' = Fin 1.5"
  by (simp add: parse_eval dbl_eval cong: let_weak_cong)

lemma parseFloat_abc: "parseFloat ''abc'' = NaN"
  by (simp add: parse_eval dbl_eval cong: let_weak_cong)

lemma parseFloat_long: "parseFloat ''1.00000000000000001'' = Fin 1"
  by (simp add: parse_eval dbl_eval cong: let_weak_cong)

lemma parseInt_defaults:
  "parseInt ''6379'' = Fin 6379" "parseInt ''8000'' = Fin 8000" "parseInt ''5'' = Fin 5"
  "parseInt ''30000'' = Fin 30000" "parseInt ''10000'' = Fin 10000"
  by (simp_all add: parse_eval dbl_eval cong: let_weak_cong)

lemma read_env_empty: "read_env Map.empty = default_config"
  by (simp add: read_env_def env_or_def default_config_def parseFloat_default parseInt_defaults)

lemma threshold_values:
  "dbl (13 / 20) = 5854679515581645 / 9007199254740992"
  "dbl (2 / 5) = 3602879701896397 / 9007199254740992"
  "dbl (9 / 10) = 8106479329266893 / 9007199254740992"
  by (simp_all add: dbl_eval)

lemma loadConfig_empty: "loadConfig Map.empty = Inr default_config"
  unfolding loadConfig_def read_env_empty Let_def
  by (simp add: default_config_def js_gt_def threshold_values)

lemma not_lt_Fin:
  "(\<not> js_lt x (Fin a) \<and> \<not> js_gt x (Fin b)) = (x = NaN \<or> (\<exists>t. x = Fin t \<and> a \<le> t \<and> t \<le> b))"
  by (cases x) (auto simp add: js_gt_def)

lemma not_lt_Fin_lower:
  "(\<not> js_lt x (Fin a)) = (x = NaN \<or> x = PosInfinity \<or> (\<exists>t. x = Fin t \<and> a \<le> t))"
  by (cases x) auto

section \<open>Printing and reading decimal digits\<close>

lemma digit_char_props:
  assumes "0 \<le> k" and "k < 10"
  shows "is_digit (digit_char k)" and "digit_value (digit_char k) = k"
    and "(digit_char k = CHR ''0'') = (k = 0)"
proof -
  from assms have "k = 0 \<or> k = 1 \<or> k = 2 \<or> k = 3 \<or> k = 4 \<or> k = 5 \<or> k = 6 \<or> k = 7 \<or> k = 8 \<or> k = 9"
    by arith
  then show "is_digit (digit_char k)" and "digit_value (digit_char k) = k"
    and "(digit_char k = CHR ''0'') = (k = 0)"
    by (auto simp add: digit_char_def is_digit_def in_range_def code_unit_def digit_value_def)
qed

lemma digits_value_snoc: "digits_value (ds @ [c]) = 10 * digits_value ds + digit_value c"
  by (simp add: digits_value_def)

lemma decimal_digits_numeral:
  "0 \<le> n \<Longrightarrow> decimal_digits n \<noteq> [] \<and> list_all is_digit (decimal_digits n)
     \<and> digits_value (decimal_digits n) = n \<and> (0 < n \<longrightarrow> hd (decimal_digits n) \<noteq> CHR ''0'')"
proof (induction n rule: decimal_digits.induct)
  case (1 n)
  show ?case
  proof (cases "n < 10")
    case True
    then have "decimal_digits n = [digit_char n]" by (simp add: decimal_digits.simps)
    then show ?thesis using digit_char_props [of n] True 1(2) by (simp add: digits_value_def)
  next
    case False
    then have d: "decimal_digits n = decimal_digits (n div 10) @ [digit_char (n mod 10)]"
      by (subst decimal_digits.simps) simp
    have ih: "decimal_digits (n div 10) \<noteq> [] \<and> list_all is_digit (decimal_digits (n div 10))
       \<and> digits_value (decimal_digits (n div 10)) = n div 10
       \<and> (0 < n div 10 \<longrightarrow> hd (decimal_digits (n div 10)) \<noteq> CHR ''0'')"
      using 1(1) [OF False] 1(2) by simp
    have pos: "0 < n div 10" using False by simp
    have m: "0 \<le> n mod 10" "n mod 10 < 10" by simp_all
    show ?thesis unfolding d using ih pos digit_char_props [OF m]
      by (simp add: digits_value_snoc)
  qed
qed

lemma parseInt_integer: "parseInt s = NaN \<or> (\<exists>k::int. parseInt s = to_number (of_int k))"
proof -
  obtain sign t where r: "read_sign (dropWhile is_space s) = (sign, t)" by (cases "read_sign (dropWhile is_space s)")
  then have "sign = 1 \<or> sign = -1"
    by (auto simp add: read_sign_def split: list.splits if_splits)
  then show ?thesis
  proof
    assume "sign = 1"
    then show ?thesis using r by (auto simp add: parseInt_def Let_def)
  next
    assume "sign = -1"
    then have "parseInt s = NaN \<or> parseInt s = to_number (of_int (- digits_value (takeWhile is_digit t)))"
      using r by (auto simp add: parseInt_def Let_def)
    then show ?thesis by blast
  qed
qed

lemma to_number_integer:
  assumes "to_number (of_int k) = Fin r" and "1 \<le> r" and "r < 2 ^ 53"
  shows "r = of_int k \<and> 1 \<le> k"
proof -
  have r: "r = dbl (of_int k)" using assms(1) by (simp add: to_number_def split: if_splits)
  have "0 < k"
  proof (rule ccontr)
    assume "\<not> 0 < k"
    then have "dbl (of_int k) \<le> 0" by (intro dbl_nonpos) simp
    then show False using r assms(2) by simp
  qed
  moreover have "k < 2 ^ 53"
  proof (rule ccontr)
    assume "\<not> k < 2 ^ 53"
    then have "(2::real) ^ 53 \<le> of_int k" by (metis not_less of_int_le_iff of_int_numeral of_int_power)
    then have "2 ^ 53 \<le> dbl (of_int k)" by (rule dbl_large)
    then show False using r assms(3) by simp
  qed
  ultimately show ?thesis using r dbl_of_int [of k] by simp
qed

lemma configured_maximum:
  assumes "loadConfig env = Inr cfg"
    and "js_gt (Fin (real l)) (max_message_length cfg)"
    and "l < 2 ^ 53"
  shows "\<exists>n. max_message_length cfg = Fin (of_int n) \<and> 1 \<le> n \<and> n < int l"
proof -
  have ok: "\<not> js_lt (max_message_length cfg) (Fin 1)" and c: "cfg = read_env env"
    using assms(1) by (auto simp add: loadConfig_def Let_def split: if_splits)
  from ok assms(2) obtain r where r: "max_message_length cfg = Fin r" "1 \<le> r" "r < real l"
    by (cases "max_message_length cfg") (auto simp add: js_gt_def)
  have "r < 2 ^ 53" using r(3) assms(3)
    by (metis less_trans of_nat_less_iff of_nat_numeral of_nat_power)
  moreover obtain k :: int where "to_number (of_int k) = Fin r"
    using parseInt_integer [of "env_or env ''MAX_MESSAGE_LENGTH'' ''10000''"] r(1) c
    by (auto simp add: read_env_def)
  ultimately have "r = of_int k \<and> 1 \<le> k" using r(2) to_number_integer by blast
  then show ?thesis using r by auto
qed

lemma digits_value_nonneg: "list_all is_digit ds \<Longrightarrow> 0 \<le> digits_value ds"
proof (induction ds rule: rev_induct)
  case Nil
  then show ?case by (simp add: digits_value_def)
next
  case (snoc c ds)
  then have "0 \<le> digit_value c" by (simp add: is_digit_def in_range_def code_unit_def digit_value_def)
  then show ?case using snoc by (simp add: digits_value_snoc)
qed

lemma is_digit_value:
  assumes "is_digit c"
  shows "0 \<le> digit_value c" and "digit_value c < 10" and "digit_char (digit_value c) = c"
proof -
  define k where "k = (of_char c :: nat)"
  have "48 \<le> k \<and> k \<le> 57" using assms by (simp add: is_digit_def in_range_def code_unit_def k_def)
  then have "k = 48 \<or> k = 49 \<or> k = 50 \<or> k = 51 \<or> k = 52 \<or> k = 53 \<or> k = 54 \<or> k = 55 \<or> k = 56 \<or> k = 57"
    by arith
  then have "k = of_char CHR ''0'' \<or> k = of_char CHR ''1'' \<or> k = of_char CHR ''2'' \<or> k = of_char CHR ''3''
     \<or> k = of_char CHR ''4'' \<or> k = of_char CHR ''5'' \<or> k = of_char CHR ''6'' \<or> k = of_char CHR ''7''
     \<or> k = of_char CHR ''8'' \<or> k = of_char CHR ''9''"
    by simp
  then have "c \<in> set ''0123456789''" unfolding k_def of_char_eq_iff by simp
  then show "0 \<le> digit_value c" and "digit_value c < 10" and "digit_char (digit_value c) = c"
    by (auto simp add: digit_value_def code_unit_def digit_char_def)
qed

lemma decimal_digits_of_numeral:
  "ds \<noteq> [] \<Longrightarrow> list_all is_digit ds \<Longrightarrow> hd ds \<noteq> CHR ''0'' \<Longrightarrow>
     decimal_digits (digits_value ds) = ds \<and> 1 \<le> digits_value ds"
proof (induction ds rule: rev_induct)
  case Nil
  then show ?case by simp
next
  case (snoc c ds)
  have c: "is_digit c" using snoc.prems(2) by simp
  note v = is_digit_value [OF c]
  show ?case
  proof (cases "ds = []")
    case True
    then have "c \<noteq> CHR ''0''" using snoc.prems(3) by simp
    then have "digit_value c \<noteq> 0" using v(3) by (auto simp add: digit_char_def)
    then show ?thesis using True v by (simp add: digits_value_def decimal_digits.simps)
  next
    case False
    then have ih: "decimal_digits (digits_value ds) = ds" "1 \<le> digits_value ds"
      using snoc by simp_all
    define n where "n = 10 * digits_value ds + digit_value c"
    have "\<not> n < 10" "n div 10 = digits_value ds" "n mod 10 = digit_value c"
      using ih(2) v(1,2) by (simp_all add: n_def)
    then have "decimal_digits n = ds @ [c]" using ih(1) v(3)
      by (subst decimal_digits.simps) simp
    then show ?thesis using ih(2) v(1) by (simp add: digits_value_snoc n_def)
  qed
qed

lemma decimal_numeral_unique:
  assumes "ds \<noteq> []" and "list_all is_digit ds" and "hd ds \<noteq> CHR ''0''"
    and "es \<noteq> []" and "list_all is_digit es" and "hd es \<noteq> CHR ''0''"
    and "digits_value ds = digits_value es"
  shows "ds = es"
proof -
  have "ds = decimal_digits (digits_value ds)"
    using decimal_digits_of_numeral [OF assms(1,2,3)] by simp
  also have "\<dots> = decimal_digits (digits_value es)" by (simp only: assms(7))
  also have "\<dots> = es" using decimal_digits_of_numeral [OF assms(4,5,6)] by simp
  finally show ?thesis .
qed

section \<open>The breaker, call by call\<close>

lemma execute_all_append:
  "execute_all now (xs @ ys) bw = execute_all now ys (execute_all now xs bw)"
  by (induction xs arbitrary: bw) simp_all

lemma execute_closed_failure:
  assumes "state b = CLOSED" and "fails fn"
  shows "fst (snd (execute now fn (b, w))) = onFailure (now (snd (fn w))) b"
proof -
  obtain r w' where fn: "fn w = (r, w')" by (cases "fn w")
  with assms(2) have "isl r" unfolding fails_def by (metis fst_conv)
  then obtain e where "r = Inl e" by (cases r) simp_all
  with fn assms(1) show ?thesis by (simp add: execute_def)
qed

lemma onFailure_closed:
  assumes "state b = CLOSED"
  shows "failureCount (onFailure t b) = failureCount b + 1"
    and "config (onFailure t b) = config b"
    and "state (onFailure t b) = (if failureCount b + 1 \<ge> threshold (config b) then OPEN else CLOSED)"
  using assms by (simp_all add: onFailure_def Let_def)

lemma closed_failures:
  assumes "state b = CLOSED" and "\<forall>fn\<in>set fns. fails fn"
    and "failureCount b + int (length fns) < threshold (config b)"
  shows "state (fst (execute_all now fns (b, w))) = CLOSED
       \<and> failureCount (fst (execute_all now fns (b, w))) = failureCount b + int (length fns)
       \<and> config (fst (execute_all now fns (b, w))) = config b"
  using assms
proof (induction fns arbitrary: b w)
  case Nil
  then show ?case by simp
next
  case (Cons fn fns)
  obtain o1 b1 w1 where ex: "execute now fn (b, w) = (o1, b1, w1)" by (cases "execute now fn (b, w)")
  have fl: "fails fn" using Cons.prems(2) by simp
  have b1: "b1 = onFailure (now (snd (fn w))) b"
    using execute_closed_failure [OF Cons.prems(1) fl, of now w] ex by simp
  have st: "state b1 = CLOSED" and fc: "failureCount b1 = failureCount b + 1" and cf: "config b1 = config b"
    using onFailure_closed [OF Cons.prems(1)] Cons.prems(3) by (simp_all add: b1)
  have "state (fst (execute_all now fns (b1, w1))) = CLOSED
       \<and> failureCount (fst (execute_all now fns (b1, w1))) = failureCount b1 + int (length fns)
       \<and> config (fst (execute_all now fns (b1, w1))) = config b1"
    using Cons.prems st fc cf by (intro Cons.IH) simp_all
  then show ?case using ex fc cf by simp
qed

lemma threshold_failures_open:
  assumes "state b = CLOSED" and "failureCount b = 0" and "1 \<le> threshold (config b)"
    and "int (length fns) = threshold (config b)" and "\<forall>fn\<in>set fns. fails fn"
  shows "state (fst (execute_all now fns (b, w))) = OPEN"
    and "\<forall>k<length fns. state (fst (execute_all now (take k fns) (b, w))) = CLOSED"
proof -
  show "\<forall>k<length fns. state (fst (execute_all now (take k fns) (b, w))) = CLOSED"
  proof (intro allI impI)
    fix k assume k: "k < length fns"
    have "\<forall>fn\<in>set (take k fns). fails fn" using assms(5) by (meson in_set_takeD)
    moreover have "failureCount b + int (length (take k fns)) < threshold (config b)"
      using k assms(2,4) by simp
    ultimately show "state (fst (execute_all now (take k fns) (b, w))) = CLOSED"
      using closed_failures [OF assms(1), of "take k fns" now w] by simp
  qed
next
  have ne: "fns \<noteq> []" using assms(3,4) by auto
  define pre where "pre = butlast fns"
  define fn where "fn = last fns"
  have split: "fns = pre @ [fn]" using ne by (simp add: pre_def fn_def)
  have len: "int (length pre) = threshold (config b) - 1" using assms(4) split by simp
  obtain b1 w1 where mid: "execute_all now pre (b, w) = (b1, w1)" by (cases "execute_all now pre (b, w)")
  have "\<forall>f\<in>set pre. fails f" using assms(5) split by simp
  moreover have "failureCount b + int (length pre) < threshold (config b)" using len assms(2) by simp
  ultimately have st: "state b1 = CLOSED" and fc: "failureCount b1 = int (length pre)" and cf: "config b1 = config b"
    using closed_failures [OF assms(1), of pre now w] mid assms(2) by simp_all
  have fl: "fails fn" using assms(5) split by simp
  have "fst (snd (execute now fn (b1, w1))) = onFailure (now (snd (fn w1))) b1"
    by (rule execute_closed_failure [OF st fl])
  moreover have "state (onFailure (now (snd (fn w1))) b1) = OPEN"
    using onFailure_closed(3) [OF st] fc cf len by simp
  ultimately show "state (fst (execute_all now fns (b, w))) = OPEN"
    by (simp add: split execute_all_append mid)
qed

lemma execute_half_open_success:
  assumes "state b = HALF_OPEN" and "succeeds fn" and "successCount b < halfOpenMaxAttempts (config b)"
  shows "fst (snd (execute now fn (b, w))) = onSuccess b"
proof -
  obtain r w' where fn: "fn w = (r, w')" by (cases "fn w")
  with assms(2) have "\<not> isl r" unfolding succeeds_def by (metis fst_conv)
  then obtain v where "r = Inr v" by (cases r) simp_all
  with fn assms(1,3) show ?thesis by (simp add: execute_def)
qed

lemma onSuccess_half_open:
  assumes "state b = HALF_OPEN"
  shows "config (onSuccess b) = config b"
    and "successCount b + 1 < halfOpenMaxAttempts (config b) \<Longrightarrow>
           state (onSuccess b) = HALF_OPEN \<and> successCount (onSuccess b) = successCount b + 1"
    and "successCount b + 1 \<ge> halfOpenMaxAttempts (config b) \<Longrightarrow>
           state (onSuccess b) = CLOSED \<and> successCount (onSuccess b) = 0 \<and> failureCount (onSuccess b) = 0"
  using assms by (simp_all add: onSuccess_def Let_def)

lemma half_open_successes:
  assumes "state b = HALF_OPEN" and "\<forall>fn\<in>set fns. succeeds fn"
    and "0 \<le> successCount b"
    and "successCount b + int (length fns) < halfOpenMaxAttempts (config b)"
  shows "state (fst (execute_all now fns (b, w))) = HALF_OPEN
       \<and> successCount (fst (execute_all now fns (b, w))) = successCount b + int (length fns)
       \<and> config (fst (execute_all now fns (b, w))) = config b"
  using assms
proof (induction fns arbitrary: b w)
  case Nil
  then show ?case by simp
next
  case (Cons fn fns)
  obtain o1 b1 w1 where ex: "execute now fn (b, w) = (o1, b1, w1)" by (cases "execute now fn (b, w)")
  have ok: "succeeds fn" using Cons.prems(2) by simp
  have lt: "successCount b < halfOpenMaxAttempts (config b)" using Cons.prems(4) by simp
  have b1: "b1 = onSuccess b"
    using execute_half_open_success [OF Cons.prems(1) ok lt, of now w] ex by simp
  have st: "state b1 = HALF_OPEN" and sc: "successCount b1 = successCount b + 1" and cf: "config b1 = config b"
    using onSuccess_half_open [OF Cons.prems(1)] Cons.prems(4) by (simp_all add: b1)
  have "state (fst (execute_all now fns (b1, w1))) = HALF_OPEN
       \<and> successCount (fst (execute_all now fns (b1, w1))) = successCount b1 + int (length fns)
       \<and> config (fst (execute_all now fns (b1, w1))) = config b1"
    using Cons.prems st sc cf by (intro Cons.IH) simp_all
  then show ?case using ex sc cf by simp
qed

lemma probes_close:
  assumes "state b = HALF_OPEN" and "successCount b = 0" and "1 \<le> halfOpenMaxAttempts (config b)"
    and "int (length fns) = halfOpenMaxAttempts (config b)" and "\<forall>fn\<in>set fns. succeeds fn"
  shows "state (fst (execute_all now fns (b, w))) = CLOSED
       \<and> failureCount (fst (execute_all now fns (b, w))) = 0
       \<and> successCount (fst (execute_all now fns (b, w))) = 0"
    and "\<forall>k<length fns. state (fst (execute_all now (take k fns) (b, w))) = HALF_OPEN"
proof -
  show "\<forall>k<length fns. state (fst (execute_all now (take k fns) (b, w))) = HALF_OPEN"
  proof (intro allI impI)
    fix k assume k: "k < length fns"
    have "\<forall>fn\<in>set (take k fns). succeeds fn" using assms(5) by (meson in_set_takeD)
    moreover have "successCount b + int (length (take k fns)) < halfOpenMaxAttempts (config b)"
      using k assms(2,4) by simp
    ultimately show "state (fst (execute_all now (take k fns) (b, w))) = HALF_OPEN"
      using half_open_successes [OF assms(1), of "take k fns" now w] assms(2) by simp
  qed
next
  have ne: "fns \<noteq> []" using assms(3,4) by auto
  define pre where "pre = butlast fns"
  define fn where "fn = last fns"
  have split: "fns = pre @ [fn]" using ne by (simp add: pre_def fn_def)
  have len: "int (length pre) = halfOpenMaxAttempts (config b) - 1" using assms(4) split by simp
  obtain b1 w1 where mid: "execute_all now pre (b, w) = (b1, w1)" by (cases "execute_all now pre (b, w)")
  have "\<forall>f\<in>set pre. succeeds f" using assms(5) split by simp
  moreover have "successCount b + int (length pre) < halfOpenMaxAttempts (config b)" using len assms(2) by simp
  ultimately have st: "state b1 = HALF_OPEN" and sc: "successCount b1 = int (length pre)" and cf: "config b1 = config b"
    using half_open_successes [OF assms(1), of pre now w] mid assms(2) by simp_all
  have ok: "succeeds fn" using assms(5) split by simp
  have lt: "successCount b1 < halfOpenMaxAttempts (config b1)" using sc cf len by simp
  have "fst (snd (execute now fn (b1, w1))) = onSuccess b1"
    by (rule execute_half_open_success [OF st ok lt])
  moreover have "state (onSuccess b1) = CLOSED \<and> successCount (onSuccess b1) = 0 \<and> failureCount (onSuccess b1) = 0"
    using onSuccess_half_open(3) [OF st] sc cf len by simp
  ultimately show "state (fst (execute_all now fns (b, w))) = CLOSED
       \<and> failureCount (fst (execute_all now fns (b, w))) = 0
       \<and> successCount (fst (execute_all now fns (b, w))) = 0"
    by (simp add: split execute_all_append mid)
qed

lemma execute_open_early:
  assumes "state b = OPEN" and "now w - lastFailureTime b < resetTimeout (config b)"
  shows "execute now fn (b, w) = (Undefined, b, w)"
  using assms by (simp add: execute_def)

lemma execute_open_probe:
  assumes "state b = OPEN" and "now w - lastFailureTime b \<ge> resetTimeout (config b)"
    and "1 \<le> halfOpenMaxAttempts (config b)"
  shows "execute now fn (b, w) = execute now fn (b\<lparr>state := HALF_OPEN, successCount := 0\<rparr>, w)"
    and "fst (execute now fn (b, w)) = (case fst (fn w) of Inr r \<Rightarrow> Returned r | Inl e \<Rightarrow> Thrown e)"
    and "snd (snd (execute now fn (b, w))) = snd (fn w)"
  using assms by (simp_all add: execute_def Let_def split: prod.splits sum.splits)

lemma execute_half_open_failure:
  assumes "state b = HALF_OPEN" and "fst (execute now fn (b, w)) = Thrown e"
  shows "state (fst (snd (execute now fn (b, w)))) = OPEN"
  using assms by (auto simp add: execute_def Let_def onFailure_def split: prod.splits sum.splits if_splits)

section \<open>The dispatcher, frame by frame\<close>

lemma handleMessage_with_open:
  assumes "request_type r = ''intercept''" and "message r = Some m" and "truthy (content m)"
    and "state b = OPEN" and "clock w - lastFailureTime b < resetTimeout (config b)"
  shows "handleMessage_with scorer uuid (Request r) (b, w) =
     (b, w\<lparr>emitted := emitted w @ [(m, breaker_open_result)],
           sent := sent w @ [InterceptorResponse (request_id_or uuid r) breaker_open_result 0]\<rparr>)"
  using assms execute_open_early [of b clock w "call_scorer scorer m"]
  by (simp add: handleMessage_with_def Let_def request_id_or_def)

lemma handleMessage_with_missing_content:
  assumes "request_type r = ''intercept''" and "message r = Some m" and "\<not> truthy (content m)"
  shows "handleMessage_with scorer uuid (Request r) (b, w) =
     (b, w\<lparr>sent := sent w @ [ErrorResponse (request_id r) ''processing_error'' ''Missing message content'']\<rparr>)"
  using assms by (simp add: handleMessage_with_def Let_def sendError_def)

lemma execute_call_scorer:
  "sent (snd (snd (execute clock (call_scorer scorer m) (b, w)))) = sent w
   \<and> clock (snd (snd (execute clock (call_scorer scorer m) (b, w)))) = clock w
   \<and> (fst (execute clock (call_scorer scorer m) (b, w)) = Undefined
      \<or> (\<exists>r. scorer m = Inr r \<and> fst (execute clock (call_scorer scorer m) (b, w)) = Returned r)
      \<or> (\<exists>e. scorer m = Inl e \<and> fst (execute clock (call_scorer scorer m) (b, w)) = Thrown e))"
  by (cases "scorer m") (simp_all add: execute_def call_scorer_def Let_def)

lemma handleMessage_with_sent:
  "(\<exists>rid msg. sent (snd (handleMessage_with scorer uuid fr (b, w))) = sent w @ [ErrorResponse rid ''processing_error'' msg])
   \<or> (\<exists>rid res ms. sent (snd (handleMessage_with scorer uuid fr (b, w))) = sent w @ [InterceptorResponse rid res ms]
        \<and> (res = breaker_open_result \<or> res = interceptor_error_result \<or> (\<exists>m. scorer m = Inr res)))"
proof (cases fr)
  case Malformed
  then show ?thesis by (simp add: handleMessage_with_def Let_def sendError_def)
next
  case (Request r)
  show ?thesis
  proof (cases "request_type r \<noteq> ''intercept'' \<or> message r = None \<or> \<not> truthy (content (the (message r)))")
    case True
    then show ?thesis using Request
      by (auto simp add: handleMessage_with_def Let_def sendError_def)
  next
    case False
    from False obtain m where msg: "message r = Some m" by auto
    from False msg have ok: "request_type r = ''intercept''" "truthy (content m)" by simp_all
    define ex where "ex = execute clock (call_scorer scorer m) (b, w)"
    define res where "res = (case fst ex of Undefined \<Rightarrow> breaker_open_result | Returned r \<Rightarrow> r
                              | Thrown error \<Rightarrow> interceptor_error_result)"
    have facts: "sent (snd (snd ex)) = sent w"
      "fst ex = Undefined \<or> (\<exists>r. scorer m = Inr r \<and> fst ex = Returned r) \<or> (\<exists>e. scorer m = Inl e \<and> fst ex = Thrown e)"
      using execute_call_scorer [of scorer m b w] by (simp_all add: ex_def)
    have "sent (snd (handleMessage_with scorer uuid fr (b, w)))
         = sent w @ [InterceptorResponse (request_id_or uuid r) res (clock (snd (snd ex)) - clock w)]"
      using Request msg ok facts(1)
      by (simp add: handleMessage_with_def Let_def request_id_or_def ex_def res_def)
    moreover have "res = breaker_open_result \<or> res = interceptor_error_result \<or> (\<exists>m. scorer m = Inr res)"
      using facts(2) by (auto simp add: res_def)
    ultimately show ?thesis by blast
  qed
qed

section \<open>Claims about the scorer\<close>

lemma phone_message_score:
  "interceptMessage cfg (chat_message i (JString ''555-123-4567'')) =
     (if js_gt (Fin 12) (max_message_length cfg)
      then \<lparr>allowed = False, action = ''hard_block'', risk_score = 1.0, labels = [''message_too_long''],
            nudge_message = None,
            block_reason = Some (''Message exceeds maximum length of ''
              @ number_to_string (max_message_length cfg) @ '' characters'')\<rparr>
      else if js_ge (Fin (dbl 0.7224999999999999)) (sync_threshold cfg)
      then \<lparr>allowed = False, action = ''hard_block'', risk_score = dbl 0.7224999999999999,
            labels = [''contact_info_phone''], nudge_message = None,
            block_reason = Some ''Message blocked: detected phone number. Keep conversations on the platform for your safety.''\<rparr>
      else \<lparr>allowed = True, action = ''nudge'', risk_score = dbl 0.7224999999999999,
            labels = [''contact_info_phone''], nudge_message = None, block_reason = None\<rparr>)"
  by (simp add: interceptMessage_def chat_message_def scan_us_phone single_score
      generateLabels_def generateBlockReason_def generateNudgeMessage_def dbl_eval cong: let_weak_cong)

text \<open>
  C1. When exactly one category matched, the score is the double product of its weight and
  0.85, whatever the number of distinct matches: 0.7224999999999999 for phone and 0.68 for
  email, above 0.65; 0.425 for url, in the band from 0.40 to 0.65; but 0.34 for social,
  below 0.40, where the claim (and the comment of the test on lone social mentions) expects
  the band from 0.40.
\<close>

theorem single_category_risk_score:
  assumes "content m = JString s"
    and "\<not> js_gt (Fin (real (length s))) (max_message_length cfg)"
    and "scanPatterns s = [pm]"
  shows "risk_score (interceptMessage cfg m) =
           (case type pm of phone \<Rightarrow> dbl 0.7224999999999999 | email \<Rightarrow> dbl 0.68 | url \<Rightarrow> dbl 0.425
            | social \<Rightarrow> dbl 0.34 | obfuscation \<Rightarrow> dbl 0.1275)"
proof -
  have "s \<noteq> []" using assms(3) scanPatterns_empty by auto
  then have "risk_score (interceptMessage cfg m) = calculateRiskScore [pm]"
    using risk_score_scored [OF assms(1) _ assms(2)] assms(3) by simp
  then show ?thesis by (cases "type pm") (simp_all add: single_score dbl_eval)
qed

theorem single_category_risk_score_witness:
  "content (chat_message ''msg-012'' (JString ''Text me later'')) = JString ''Text me later''
   \<and> \<not> js_gt (Fin (real (length ''Text me later''))) (max_message_length default_config)
   \<and> scanPatterns ''Text me later'' = [\<lparr>type = social, count = 1, samples = [''Text me'']\<rparr>]
   \<and> interceptMessage default_config (chat_message ''msg-012'' (JString ''Text me later'')) =
       \<lparr>allowed = True, action = ''allow'', risk_score = dbl 0.34, labels = [''social_platform_mention''],
        nudge_message = None, block_reason = None\<rparr>
   \<and> risk_score (interceptMessage default_config (chat_message ''msg-012'' (JString ''Text me later''))) < dbl 0.40"
proof -
  have c: "content (chat_message ''msg-012'' (JString ''Text me later'')) = JString ''Text me later''"
    by (simp add: chat_message_def)
  have l: "\<not> js_gt (Fin (real (length ''Text me later''))) (max_message_length default_config)"
    by (simp add: default_config_def js_gt_def)
  have r: "risk_score (interceptMessage default_config (chat_message ''msg-012'' (JString ''Text me later''))) = dbl 0.34"
    using single_category_risk_score [OF c l scan_text_me_later] by simp
  have b: "dbl 0.34 < dbl 0.40"
    by (simp add: dbl_eval)
  have "interceptMessage default_config (chat_message ''msg-012'' (JString ''Text me later'')) =
       \<lparr>allowed = True, action = ''allow'', risk_score = dbl 0.34, labels = [''social_platform_mention''],
        nudge_message = None, block_reason = None\<rparr>"
    by (simp add: interceptMessage_def chat_message_def default_config_def js_gt_def js_ge_def
        scan_text_me_later single_score generateLabels_def dbl_eval cong: let_weak_cong)
  then show ?thesis using c l r b scan_text_me_later by simp
qed

text \<open>
  C2. For every configuration and message the result of \<open>interceptMessage\<close> has
  \<open>allowed\<close> exactly when the action is not \<open>hard_block\<close> and a block reason exactly
  when it is; and the two results the dispatcher makes up are allow results with neither
  text. A nudge message, though, is present exactly when the action is \<open>nudge\<close> and the
  score is below the constant 0.65 of \<open>generateNudgeMessage\<close>: with a threshold
  above 0.65 a score from 0.65 up to the threshold gives the action \<open>nudge\<close> and no
  nudge message.
\<close>

theorem intercept_result_fields:
  "allowed (interceptMessage cfg m) = (action (interceptMessage cfg m) \<noteq> ''hard_block'')
   \<and> (block_reason (interceptMessage cfg m) \<noteq> None) = (action (interceptMessage cfg m) = ''hard_block'')
   \<and> (nudge_message (interceptMessage cfg m) \<noteq> None)
       = (action (interceptMessage cfg m) = ''nudge'' \<and> risk_score (interceptMessage cfg m) < dbl 0.65)
   \<and> allowed breaker_open_result \<and> action breaker_open_result = ''allow''
   \<and> nudge_message breaker_open_result = None \<and> block_reason breaker_open_result = None
   \<and> allowed interceptor_error_result \<and> action interceptor_error_result = ''allow''
   \<and> nudge_message interceptor_error_result = None \<and> block_reason interceptor_error_result = None"
  by (simp add: interceptMessage_def Let_def generateNudgeMessage_def breaker_open_result_def
      interceptor_error_result_def)

theorem intercept_result_fields_witness:
  "loadConfig [''SYNC_THRESHOLD'' \<mapsto> ''0.9''] = Inr (default_config\<lparr>sync_threshold := Fin (dbl 0.9)\<rparr>)
   \<and> interceptMessage (default_config\<lparr>sync_threshold := Fin (dbl 0.9)\<rparr>) (chat_message ''msg-019'' (JString ''555-123-4567'')) =
       \<lparr>allowed = True, action = ''nudge'', risk_score = dbl 0.7224999999999999, labels = [''contact_info_phone''],
        nudge_message = None, block_reason = None\<rparr>
   \<and> action (interceptMessage (default_config\<lparr>sync_threshold := Fin (dbl 0.9)\<rparr>) (chat_message ''msg-019'' (JString ''555-123-4567''))) = ''nudge''
   \<and> nudge_message (interceptMessage (default_config\<lparr>sync_threshold := Fin (dbl 0.9)\<rparr>) (chat_message ''msg-019'' (JString ''555-123-4567''))) = None"
proof -
  have e: "read_env [''SYNC_THRESHOLD'' \<mapsto> ''0.9''] = default_config\<lparr>sync_threshold := Fin (dbl 0.9)\<rparr>"
    by (simp add: read_env_def env_or_def default_config_def parseFloat_09 parseInt_defaults)
  have l: "loadConfig [''SYNC_THRESHOLD'' \<mapsto> ''0.9''] = Inr (default_config\<lparr>sync_threshold := Fin (dbl 0.9)\<rparr>)"
    unfolding loadConfig_def e Let_def by (simp add: default_config_def js_gt_def threshold_values)
  have r: "interceptMessage (default_config\<lparr>sync_threshold := Fin (dbl 0.9)\<rparr>) (chat_message ''msg-019'' (JString ''555-123-4567'')) =
       \<lparr>allowed = True, action = ''nudge'', risk_score = dbl 0.7224999999999999, labels = [''contact_info_phone''],
        nudge_message = None, block_reason = None\<rparr>"
    by (simp add: phone_message_score default_config_def js_gt_def js_ge_def dbl_eval)
  show ?thesis
    using intercept_result_fields [of "default_config\<lparr>sync_threshold := Fin (dbl 0.9)\<rparr>"
        "chat_message ''msg-019'' (JString ''555-123-4567'')"] l r
    by simp
qed



text \<open>
  C6. Under a configuration the loader returned, a message whose content is longer than
  \<open>max_message_length\<close> (and, as every string, shorter than \<open>2^53\<close>) is answered,
  whatever the content holds, with \<open>allowed = false\<close>, \<open>action = hard_block\<close>,
  \<open>risk_score = 1.0\<close>, \<open>labels = [message_too_long]\<close> and a block reason that prints
  the configured maximum: that maximum is an integer \<open>n\<close> from 1 up to below the length,
  and the text between \<open>Message exceeds maximum length of\<close> and \<open>characters\<close> is a
  run of decimal digits with no leading zero whose value is \<open>n\<close>.
\<close>

theorem too_long_is_blocked:
  assumes "loadConfig env = Inr cfg"
    and "content m = JString s"
    and "length s < 2 ^ 53"
    and "js_gt (Fin (real (length s))) (max_message_length cfg)"
  shows "\<exists>n ds. max_message_length cfg = Fin (of_int n) \<and> 1 \<le> n \<and> n < int (length s)
       \<and> ds \<noteq> [] \<and> list_all is_digit ds \<and> hd ds \<noteq> CHR ''0'' \<and> digits_value ds = n
       \<and> interceptMessage cfg m =
           \<lparr>allowed = False, action = ''hard_block'', risk_score = 1.0, labels = [''message_too_long''],
            nudge_message = None,
            block_reason = Some (''Message exceeds maximum length of '' @ ds @ '' characters'')\<rparr>"
proof -
  obtain n where n: "max_message_length cfg = Fin (of_int n)" "1 \<le> n" "n < int (length s)"
    using configured_maximum [OF assms(1) assms(4) assms(3)] by blast
  have "s \<noteq> []" using n(2,3) by auto
  then have r: "interceptMessage cfg m =
           \<lparr>allowed = False, action = ''hard_block'', risk_score = 1.0, labels = [''message_too_long''],
            nudge_message = None,
            block_reason = Some (''Message exceeds maximum length of '' @ decimal_digits n @ '' characters'')\<rparr>"
    using assms(2,4) n(1,2) by (simp add: interceptMessage_def)
  have "decimal_digits n \<noteq> [] \<and> list_all is_digit (decimal_digits n)
     \<and> digits_value (decimal_digits n) = n \<and> hd (decimal_digits n) \<noteq> CHR ''0''"
    using decimal_digits_numeral [of n] n(2) by simp
  then show ?thesis using n r by blast
qed

theorem too_long_is_blocked_witness:
  "loadConfig Map.empty = Inr default_config
   \<and> content (chat_message ''msg-016'' (JString (replicate 10001 CHR ''a''))) = JString (replicate 10001 CHR ''a'')
   \<and> length (replicate 10001 CHR ''a'') < 2 ^ 53
   \<and> js_gt (Fin (real (length (replicate 10001 CHR ''a'')))) (max_message_length default_config)
   \<and> max_message_length default_config = Fin (of_int 10000)
   \<and> list_all is_digit ''10000'' \<and> hd ''10000'' \<noteq> CHR ''0'' \<and> digits_value ''10000'' = 10000
   \<and> interceptMessage default_config (chat_message ''msg-016'' (JString (replicate 10001 CHR ''a''))) =
     \<lparr>allowed = False, action = ''hard_block'', risk_score = 1.0, labels = [''message_too_long''],
      nudge_message = None,
      block_reason = Some ''Message exceeds maximum length of 10000 characters''\<rparr>"
proof -
  have c: "content (chat_message ''msg-016'' (JString (replicate 10001 CHR ''a''))) = JString (replicate 10001 CHR ''a'')"
    by (simp add: chat_message_def)
  have b: "length (replicate 10001 CHR ''a'') < 2 ^ 53"
    by simp
  have l: "js_gt (Fin (real (length (replicate 10001 CHR ''a'')))) (max_message_length default_config)"
    by (simp add: default_config_def js_gt_def)
  have d: "list_all is_digit ''10000'' \<and> hd ''10000'' \<noteq> CHR ''0'' \<and> digits_value ''10000'' = 10000"
    by (simp add: is_digit_def in_range_def code_unit_def digits_value_def digit_value_def)
  obtain n ds where n: "max_message_length default_config = Fin (of_int n)"
    and ds: "ds \<noteq> []" "list_all is_digit ds" "hd ds \<noteq> CHR ''0''" "digits_value ds = n"
    and r: "interceptMessage default_config (chat_message ''msg-016'' (JString (replicate 10001 CHR ''a''))) =
     \<lparr>allowed = False, action = ''hard_block'', risk_score = 1.0, labels = [''message_too_long''],
      nudge_message = None,
      block_reason = Some (''Message exceeds maximum length of '' @ ds @ '' characters'')\<rparr>"
    using too_long_is_blocked [OF loadConfig_empty c b l] by blast
  have "n = 10000" using n by (simp add: default_config_def)
  then have "ds = ''10000''" using decimal_numeral_unique [OF ds(1,2,3), of "''10000''"] ds(4) d by simp
  then show ?thesis using loadConfig_empty c b l d r by (simp add: default_config_def)
qed

text \<open>
  C8. On every path the risk score of the result lies between 0 and 1: in
  \<open>interceptMessage\<close> for every configuration and every message (pattern scoring,
  the length gate, the gate for content that is missing or not a string), in the two
  results the dispatcher makes up itself, and so in every result the dispatcher sends,
  whether the scorer returned it or threw.
\<close>

theorem risk_score_in_unit_interval:
  assumes "\<forall>m r. scorer m = Inr r \<longrightarrow> r = interceptMessage cfg m"
  shows "0 \<le> risk_score (interceptMessage cfg msg) \<and> risk_score (interceptMessage cfg msg) \<le> 1
       \<and> risk_score breaker_open_result = 0 \<and> risk_score interceptor_error_result = 0
       \<and> (\<forall>rid res ms.
             sent (snd (handleMessage_with scorer uuid fr (b, w))) = sent w @ [InterceptorResponse rid res ms]
             \<longrightarrow> 0 \<le> risk_score res \<and> risk_score res \<le> 1)"
proof -
  have scored: "0 \<le> risk_score (interceptMessage cfg x) \<and> risk_score (interceptMessage cfg x) \<le> 1" for x
    using calculateRiskScore_bounds [of "scanPatterns (string_of (content x))"]
    by (simp add: interceptMessage_def Let_def)
  have made: "risk_score breaker_open_result = 0" "risk_score interceptor_error_result = 0"
    by (simp_all add: breaker_open_result_def interceptor_error_result_def)
  have "0 \<le> risk_score res \<and> risk_score res \<le> 1"
    if "sent (snd (handleMessage_with scorer uuid fr (b, w))) = sent w @ [InterceptorResponse rid res ms]"
    for rid res ms
  proof -
    from handleMessage_with_sent [of scorer uuid fr b w] that
    have "res = breaker_open_result \<or> res = interceptor_error_result \<or> (\<exists>m. scorer m = Inr res)"
      by auto
    then show ?thesis using made scored assms by auto
  qed
  then show ?thesis using scored made by blast
qed

theorem risk_score_in_unit_interval_witness:
  "sent (snd (handleMessage default_config ''uuid-1''
           (Request (intercept_request ''req-1'' (chat_message ''msg-001'' (JString ''hello''))))
           (open_breaker, world_at 1000)))
     = sent (world_at 1000) @ [InterceptorResponse ''req-1'' breaker_open_result 0]
   \<and> 0 \<le> risk_score breaker_open_result \<and> risk_score breaker_open_result \<le> 1
   \<and> 0 \<le> risk_score (interceptMessage default_config (chat_message ''msg-001'' JNull))
   \<and> risk_score (interceptMessage default_config (chat_message ''msg-001'' JNull)) \<le> 1"
proof -
  have s: "sent (snd (handleMessage default_config ''uuid-1''
           (Request (intercept_request ''req-1'' (chat_message ''msg-001'' (JString ''hello''))))
           (open_breaker, world_at 1000)))
     = sent (world_at 1000) @ [InterceptorResponse ''req-1'' breaker_open_result 0]"
    using handleMessage_with_open [of "intercept_request ''req-1'' (chat_message ''msg-001'' (JString ''hello''))"
        "chat_message ''msg-001'' (JString ''hello'')" open_breaker "world_at 1000"
        "\<lambda>msg. Inr (interceptMessage default_config msg)" "''uuid-1''"]
    by (simp add: handleMessage_def intercept_request_def chat_message_def open_breaker_def world_at_def
        request_id_or_def)
  have p: "\<forall>m r. (\<lambda>msg. Inr (interceptMessage default_config msg)) m = Inr r \<longrightarrow> r = interceptMessage default_config m"
    by simp
  show ?thesis
    using risk_score_in_unit_interval [OF p, of "chat_message ''msg-001'' JNull" "''uuid-1''"
        "Request (intercept_request ''req-1'' (chat_message ''msg-001'' (JString ''hello'')))"
        open_breaker "world_at 1000"] s
    by (simp add: handleMessage_def)
qed

section \<open>Claims about the configuration loader\<close>

text \<open>
  C5. \<open>loadConfig\<close> returns the record read from the environment exactly when every
  tunable is in its range, or is \<open>NaN\<close>, or has only a lower bound and is \<open>Infinity\<close>:
  a value that does not parse as a number passes every check, since each check is a
  comparison and comparisons with \<open>NaN\<close> are false, and a digit string too long for a
  double is read as \<open>Infinity\<close>. So not every invalid value makes the loader fail.
\<close>

theorem loadConfig_accepts:
  "(loadConfig env = Inr cfg) =
     (cfg = read_env env
      \<and> (sync_threshold cfg = NaN \<or> (\<exists>t. sync_threshold cfg = Fin t \<and> 0 \<le> t \<and> t \<le> 1))
      \<and> (redis_port cfg = NaN \<or> (\<exists>p. redis_port cfg = Fin p \<and> 1 \<le> p \<and> p \<le> 65535))
      \<and> (detection_port cfg = NaN \<or> (\<exists>p. detection_port cfg = Fin p \<and> 1 \<le> p \<and> p \<le> 65535))
      \<and> (circuit_breaker_threshold cfg = NaN \<or> circuit_breaker_threshold cfg = PosInfinity
           \<or> (\<exists>n. circuit_breaker_threshold cfg = Fin n \<and> 1 \<le> n))
      \<and> (circuit_breaker_reset_ms cfg = NaN \<or> circuit_breaker_reset_ms cfg = PosInfinity
           \<or> (\<exists>n. circuit_breaker_reset_ms cfg = Fin n \<and> 1000 \<le> n))
      \<and> (max_message_length cfg = NaN \<or> max_message_length cfg = PosInfinity
           \<or> (\<exists>n. max_message_length cfg = Fin n \<and> 1 \<le> n)))"
proof -
  define c where "c = read_env env"
  have "(loadConfig env = Inr cfg) =
     (cfg = c
      \<and> (\<not> js_lt (sync_threshold c) (Fin 0) \<and> \<not> js_gt (sync_threshold c) (Fin 1))
      \<and> (\<not> js_lt (redis_port c) (Fin 1) \<and> \<not> js_gt (redis_port c) (Fin 65535))
      \<and> (\<not> js_lt (detection_port c) (Fin 1) \<and> \<not> js_gt (detection_port c) (Fin 65535))
      \<and> \<not> js_lt (circuit_breaker_threshold c) (Fin 1)
      \<and> \<not> js_lt (circuit_breaker_reset_ms c) (Fin 1000)
      \<and> \<not> js_lt (max_message_length c) (Fin 1))"
    unfolding loadConfig_def Let_def c_def [symmetric] by auto
  also have "\<dots> =
     (cfg = c
      \<and> (sync_threshold c = NaN \<or> (\<exists>t. sync_threshold c = Fin t \<and> 0 \<le> t \<and> t \<le> 1))
      \<and> (redis_port c = NaN \<or> (\<exists>p. redis_port c = Fin p \<and> 1 \<le> p \<and> p \<le> 65535))
      \<and> (detection_port c = NaN \<or> (\<exists>p. detection_port c = Fin p \<and> 1 \<le> p \<and> p \<le> 65535))
      \<and> (circuit_breaker_threshold c = NaN \<or> circuit_breaker_threshold c = PosInfinity
           \<or> (\<exists>n. circuit_breaker_threshold c = Fin n \<and> 1 \<le> n))
      \<and> (circuit_breaker_reset_ms c = NaN \<or> circuit_breaker_reset_ms c = PosInfinity
           \<or> (\<exists>n. circuit_breaker_reset_ms c = Fin n \<and> 1000 \<le> n))
      \<and> (max_message_length c = NaN \<or> max_message_length c = PosInfinity
           \<or> (\<exists>n. max_message_length c = Fin n \<and> 1 \<le> n)))"
    unfolding not_lt_Fin by (simp only: not_lt_Fin_lower)
  finally show ?thesis unfolding c_def by blast
qed

theorem loadConfig_accepts_witness:
  "read_env [''SYNC_THRESHOLD'' \<mapsto> ''abc''] = default_config\<lparr>sync_threshold := NaN\<rparr>
   \<and> loadConfig [''SYNC_THRESHOLD'' \<mapsto> ''abc''] = Inr (default_config\<lparr>sync_threshold := NaN\<rparr>)
   \<and> loadConfig [''SYNC_THRESHOLD'' \<mapsto> ''1.5''] = Inl (Invalid_sync_threshold (Fin 1.5))
   \<and> loadConfig [''SYNC_THRESHOLD'' \<mapsto> ''1.00000000000000001''] = Inr (default_config\<lparr>sync_threshold := Fin 1\<rparr>)
   \<and> loadConfig Map.empty = Inr default_config"
proof -
  have e: "read_env [''SYNC_THRESHOLD'' \<mapsto> ''abc''] = default_config\<lparr>sync_threshold := NaN\<rparr>"
    by (simp add: read_env_def env_or_def default_config_def parseFloat_abc parseInt_defaults)
  have b: "loadConfig [''SYNC_THRESHOLD'' \<mapsto> ''1.5''] = Inl (Invalid_sync_threshold (Fin 1.5))"
    by (simp add: loadConfig_def read_env_def env_or_def parseFloat_15 js_gt_def Let_def)
  have g: "read_env [''SYNC_THRESHOLD'' \<mapsto> ''1.00000000000000001''] = default_config\<lparr>sync_threshold := Fin 1\<rparr>"
    by (simp add: read_env_def env_or_def default_config_def parseFloat_long parseInt_defaults)
  have h: "loadConfig [''SYNC_THRESHOLD'' \<mapsto> ''1.00000000000000001''] = Inr (default_config\<lparr>sync_threshold := Fin 1\<rparr>)"
    unfolding loadConfig_def g Let_def by (simp add: default_config_def js_gt_def)
  have "loadConfig [''SYNC_THRESHOLD'' \<mapsto> ''abc''] = Inr (default_config\<lparr>sync_threshold := NaN\<rparr>)"
    using loadConfig_accepts [of "[''SYNC_THRESHOLD'' \<mapsto> ''abc'']" "default_config\<lparr>sync_threshold := NaN\<rparr>"] e
    by (simp add: default_config_def)
  then show ?thesis using e b h loadConfig_empty by simp
qed

section \<open>Claims about the circuit breaker\<close>

text \<open>
  C4. The breaker is the state machine of the specification, for a threshold and a number
  of half-open attempts of at least one. (1) From CLOSED with no failure counted,
  \<open>threshold\<close> calls that all fail leave it OPEN, and it is CLOSED after every smaller
  number of them. (2) While OPEN, a call made less than \<open>resetTimeout\<close> after the last
  failure returns \<open>undefined\<close> and changes neither the breaker nor the world, whatever
  the operation is: the operation is not called. (3) Once \<open>resetTimeout\<close> has passed, the
  call is the one a HALF_OPEN breaker with no success counted makes: the operation runs
  and its value or error comes back. (4) From HALF_OPEN with no success counted,
  \<open>halfOpenMaxAttempts\<close> calls that all succeed leave it CLOSED with both counters zero,
  and it is HALF_OPEN after every smaller number of them. (5) A call that fails in
  HALF_OPEN leaves it OPEN.
\<close>

theorem circuit_breaker_state_machine:
  assumes "1 \<le> threshold (config b)" and "1 \<le> halfOpenMaxAttempts (config b)"
  shows "(state b = CLOSED \<and> failureCount b = 0 \<and> int (length fns) = threshold (config b)
            \<and> (\<forall>fn\<in>set fns. fails fn)
          \<longrightarrow> state (fst (execute_all now fns (b, w))) = OPEN
              \<and> (\<forall>k<length fns. state (fst (execute_all now (take k fns) (b, w))) = CLOSED))
       \<and> (state b = OPEN \<and> now w - lastFailureTime b < resetTimeout (config b)
          \<longrightarrow> execute now fn (b, w) = (Undefined, b, w))
       \<and> (state b = OPEN \<and> resetTimeout (config b) \<le> now w - lastFailureTime b
          \<longrightarrow> execute now fn (b, w) = execute now fn (b\<lparr>state := HALF_OPEN, successCount := 0\<rparr>, w)
              \<and> fst (execute now fn (b, w)) = (case fst (fn w) of Inr r \<Rightarrow> Returned r | Inl e \<Rightarrow> Thrown e)
              \<and> snd (snd (execute now fn (b, w))) = snd (fn w))
       \<and> (state b = HALF_OPEN \<and> successCount b = 0 \<and> int (length oks) = halfOpenMaxAttempts (config b)
            \<and> (\<forall>fn\<in>set oks. succeeds fn)
          \<longrightarrow> state (fst (execute_all now oks (b, w))) = CLOSED
              \<and> failureCount (fst (execute_all now oks (b, w))) = 0
              \<and> successCount (fst (execute_all now oks (b, w))) = 0
              \<and> (\<forall>k<length oks. state (fst (execute_all now (take k oks) (b, w))) = HALF_OPEN))
       \<and> (state b = HALF_OPEN \<and> fst (execute now fn (b, w)) = Thrown err
          \<longrightarrow> state (fst (snd (execute now fn (b, w)))) = OPEN)"
proof (intro conjI impI)
  assume h: "state b = CLOSED \<and> failureCount b = 0 \<and> int (length fns) = threshold (config b)
            \<and> (\<forall>fn\<in>set fns. fails fn)"
  then show "state (fst (execute_all now fns (b, w))) = OPEN"
    using threshold_failures_open(1) [of b fns now w] assms(1) by simp
  from h show "\<forall>k<length fns. state (fst (execute_all now (take k fns) (b, w))) = CLOSED"
    using threshold_failures_open(2) [of b fns now w] assms(1) by simp
next
  assume "state b = OPEN \<and> now w - lastFailureTime b < resetTimeout (config b)"
  then show "execute now fn (b, w) = (Undefined, b, w)"
    using execute_open_early [of b now w fn] by simp
next
  assume h: "state b = OPEN \<and> resetTimeout (config b) \<le> now w - lastFailureTime b"
  then show "execute now fn (b, w) = execute now fn (b\<lparr>state := HALF_OPEN, successCount := 0\<rparr>, w)"
    using execute_open_probe(1) [of b now w fn] assms(2) by simp
  from h show "fst (execute now fn (b, w)) = (case fst (fn w) of Inr r \<Rightarrow> Returned r | Inl e \<Rightarrow> Thrown e)"
    using execute_open_probe(2) [of b now w fn] assms(2) by simp
  from h show "snd (snd (execute now fn (b, w))) = snd (fn w)"
    using execute_open_probe(3) [of b now w fn] assms(2) by simp
next
  assume h: "state b = HALF_OPEN \<and> successCount b = 0 \<and> int (length oks) = halfOpenMaxAttempts (config b)
            \<and> (\<forall>fn\<in>set oks. succeeds fn)"
  then have c: "state (fst (execute_all now oks (b, w))) = CLOSED
       \<and> failureCount (fst (execute_all now oks (b, w))) = 0
       \<and> successCount (fst (execute_all now oks (b, w))) = 0"
    using probes_close(1) [of b oks now w] assms(2) by simp
  from c show "state (fst (execute_all now oks (b, w))) = CLOSED" by simp
  from c show "failureCount (fst (execute_all now oks (b, w))) = 0" by simp
  from c show "successCount (fst (execute_all now oks (b, w))) = 0" by simp
  from h show "\<forall>k<length oks. state (fst (execute_all now (take k oks) (b, w))) = HALF_OPEN"
    using probes_close(2) [of b oks now w] assms(2) by simp
next
  assume "state b = HALF_OPEN \<and> fst (execute now fn (b, w)) = Thrown err"
  then show "state (fst (snd (execute now fn (b, w)))) = OPEN"
    using execute_half_open_failure [of b now fn w err] by simp
qed

theorem circuit_breaker_state_machine_witness:
  "1 \<le> threshold (config small_breaker) \<and> 1 \<le> halfOpenMaxAttempts (config small_breaker)
   \<and> fails failing \<and> succeeds succeeding
   \<and> state (fst (execute_all (\<lambda>t. t) [failing] (small_breaker, 0))) = CLOSED
   \<and> execute_all (\<lambda>t. t) [failing, failing] (small_breaker, 0) = (tripped_breaker, 2)
   \<and> state tripped_breaker = OPEN
   \<and> execute (\<lambda>t. t) succeeding (tripped_breaker, 1001) = (Undefined, tripped_breaker, 1001)
   \<and> execute (\<lambda>t. t) succeeding (tripped_breaker, 1002)
       = (Returned True, tripped_breaker\<lparr>state := HALF_OPEN, successCount := 1\<rparr>, 1003)
   \<and> state (fst (execute_all (\<lambda>t. t) [succeeding] (tripped_breaker\<lparr>state := HALF_OPEN\<rparr>, 1002))) = HALF_OPEN
   \<and> execute_all (\<lambda>t. t) [succeeding, succeeding] (tripped_breaker\<lparr>state := HALF_OPEN\<rparr>, 1002)
       = (tripped_breaker\<lparr>state := CLOSED, failureCount := 0\<rparr>, 1004)
   \<and> execute (\<lambda>t. t) failing (tripped_breaker\<lparr>state := HALF_OPEN\<rparr>, 1002)
       = (Thrown ''scorer down'', tripped_breaker\<lparr>failureCount := 3, lastFailureTime := 1003\<rparr>, 1003)"
proof -
  have cfg: "1 \<le> threshold (config small_breaker)" "1 \<le> halfOpenMaxAttempts (config small_breaker)"
    by (simp_all add: small_breaker_def new_CircuitBreaker_def)
  have ops: "fails failing" "succeeds succeeding"
    by (simp_all add: fails_def succeeds_def failing_def succeeding_def)
  have "state (fst (execute_all (\<lambda>t. t) [failing, failing] (small_breaker, 0))) = OPEN
      \<and> (\<forall>k<length [failing, failing]. state (fst (execute_all (\<lambda>t. t) (take k [failing, failing]) (small_breaker, 0))) = CLOSED)"
    using circuit_breaker_state_machine [OF cfg, where fns = "[failing, failing]" and now = "\<lambda>t. t" and w = 0] ops
    by (simp add: small_breaker_def new_CircuitBreaker_def)
  then have one: "state (fst (execute_all (\<lambda>t. t) [failing] (small_breaker, 0))) = CLOSED"
    by (auto dest: spec [of _ 1])
  have two: "execute_all (\<lambda>t. t) [failing, failing] (small_breaker, 0) = (tripped_breaker, 2)"
    by (simp add: small_breaker_def new_CircuitBreaker_def tripped_breaker_def failing_def execute_def
        onFailure_def Let_def)
  have early: "execute (\<lambda>t. t) succeeding (tripped_breaker, 1001) = (Undefined, tripped_breaker, 1001)"
    by (simp add: tripped_breaker_def execute_def)
  have probe: "execute (\<lambda>t. t) succeeding (tripped_breaker, 1002)
       = (Returned True, tripped_breaker\<lparr>state := HALF_OPEN, successCount := 1\<rparr>, 1003)"
    by (simp add: tripped_breaker_def execute_def succeeding_def onSuccess_def Let_def)
  have half: "state (fst (execute_all (\<lambda>t. t) [succeeding] (tripped_breaker\<lparr>state := HALF_OPEN\<rparr>, 1002))) = HALF_OPEN"
    by (simp add: tripped_breaker_def execute_def succeeding_def onSuccess_def Let_def)
  have closes: "execute_all (\<lambda>t. t) [succeeding, succeeding] (tripped_breaker\<lparr>state := HALF_OPEN\<rparr>, 1002)
       = (tripped_breaker\<lparr>state := CLOSED, failureCount := 0\<rparr>, 1004)"
    by (simp add: tripped_breaker_def execute_def succeeding_def onSuccess_def Let_def)
  have reopen: "execute (\<lambda>t. t) failing (tripped_breaker\<lparr>state := HALF_OPEN\<rparr>, 1002)
       = (Thrown ''scorer down'', tripped_breaker\<lparr>failureCount := 3, lastFailureTime := 1003\<rparr>, 1003)"
    by (simp add: tripped_breaker_def execute_def failing_def onFailure_def Let_def)
  show ?thesis using cfg ops one two early probe half closes reopen
    by (simp add: tripped_breaker_def)
qed

section \<open>Claims about the dispatcher\<close>

text \<open>
  C7, as amended. A valid intercept request (type \<open>intercept\<close>, a message with truthy
  content) that arrives while the breaker is OPEN and less than \<open>resetTimeout\<close> after the
  last failure is answered with a normal response whose result is \<open>allowed = true\<close>,
  \<open>action = allow\<close>, \<open>risk_score = 0\<close>, \<open>labels = [circuit_breaker_open]\<close>, for
  every scorer; the breaker stays as it was, the scorer is not called, and the same result
  goes to the emitter.
\<close>

theorem breaker_open_reply:
  assumes "request_type r = ''intercept''" and "message r = Some m" and "truthy (content m)"
    and "state b = OPEN" and "clock w - lastFailureTime b < resetTimeout (config b)"
  shows "fst (handleMessage_with scorer uuid (Request r) (b, w)) = b
       \<and> scored (snd (handleMessage_with scorer uuid (Request r) (b, w))) = scored w
       \<and> (\<exists>ms. sent (snd (handleMessage_with scorer uuid (Request r) (b, w))) =
             sent w @ [InterceptorResponse (request_id_or uuid r)
                        \<lparr>allowed = True, action = ''allow'', risk_score = 0.0,
                         labels = [''circuit_breaker_open''], nudge_message = None, block_reason = None\<rparr> ms])
       \<and> emitted (snd (handleMessage_with scorer uuid (Request r) (b, w))) =
             emitted w @ [(m, \<lparr>allowed = True, action = ''allow'', risk_score = 0.0,
                               labels = [''circuit_breaker_open''], nudge_message = None, block_reason = None\<rparr>)]"
  using handleMessage_with_open [OF assms, of scorer uuid]
  by (simp add: breaker_open_result_def)

theorem breaker_open_reply_witness:
  "request_type (intercept_request ''req-1'' (chat_message ''msg-001'' (JString ''hello''))) = ''intercept''
   \<and> message (intercept_request ''req-1'' (chat_message ''msg-001'' (JString ''hello'')))
       = Some (chat_message ''msg-001'' (JString ''hello''))
   \<and> truthy (content (chat_message ''msg-001'' (JString ''hello'')))
   \<and> state open_breaker = OPEN
   \<and> clock (world_at 29999) - lastFailureTime open_breaker < resetTimeout (config open_breaker)
   \<and> handleMessage default_config ''uuid-1''
        (Request (intercept_request ''req-1'' (chat_message ''msg-001'' (JString ''hello''))))
        (open_breaker, world_at 29999) =
      (open_breaker,
       \<lparr>clock = 29999,
        sent = [InterceptorResponse ''req-1''
                 \<lparr>allowed = True, action = ''allow'', risk_score = 0.0,
                  labels = [''circuit_breaker_open''], nudge_message = None, block_reason = None\<rparr> 0],
        emitted = [(chat_message ''msg-001'' (JString ''hello''),
                    \<lparr>allowed = True, action = ''allow'', risk_score = 0.0,
                     labels = [''circuit_breaker_open''], nudge_message = None, block_reason = None\<rparr>)],
        scored = []\<rparr>)"
proof -
  have a: "request_type (intercept_request ''req-1'' (chat_message ''msg-001'' (JString ''hello''))) = ''intercept''"
    and b: "message (intercept_request ''req-1'' (chat_message ''msg-001'' (JString ''hello'')))
       = Some (chat_message ''msg-001'' (JString ''hello''))"
    and c: "truthy (content (chat_message ''msg-001'' (JString ''hello'')))"
    and d: "state open_breaker = OPEN"
    and e: "clock (world_at 29999) - lastFailureTime open_breaker < resetTimeout (config open_breaker)"
    by (simp_all add: intercept_request_def chat_message_def open_breaker_def world_at_def)
  have "handleMessage default_config ''uuid-1''
        (Request (intercept_request ''req-1'' (chat_message ''msg-001'' (JString ''hello''))))
        (open_breaker, world_at 29999) =
      (open_breaker,
       \<lparr>clock = 29999,
        sent = [InterceptorResponse ''req-1''
                 \<lparr>allowed = True, action = ''allow'', risk_score = 0.0,
                  labels = [''circuit_breaker_open''], nudge_message = None, block_reason = None\<rparr> 0],
        emitted = [(chat_message ''msg-001'' (JString ''hello''),
                    \<lparr>allowed = True, action = ''allow'', risk_score = 0.0,
                     labels = [''circuit_breaker_open''], nudge_message = None, block_reason = None\<rparr>)],
        scored = []\<rparr>)"
    using handleMessage_with_open [OF a b c d e, of "\<lambda>msg. Inr (interceptMessage default_config msg)" "''uuid-1''"]
    by (simp add: handleMessage_def breaker_open_result_def world_at_def request_id_or_def intercept_request_def)
  then show ?thesis
    using breaker_open_reply [OF a b c d e, of "\<lambda>msg. Inr (interceptMessage default_config msg)" "''uuid-1''"] a b c d e
    by simp
qed

text \<open>
  C7, as stated, fails: the breaker of the service, OPEN since time 0, receives a valid
  request at time 30000, when its reset timeout has passed. The call is a probe: the scorer
  runs, and the reply for a phone number is a hard block, not the breaker-open allow result.
\<close>

theorem breaker_open_reply_counterexample:
  "state open_breaker = OPEN
   \<and> handleMessage default_config ''uuid-1''
        (Request (intercept_request ''req-19'' (chat_message ''msg-019'' (JString ''555-123-4567''))))
        (open_breaker, world_at 30000) =
      (open_breaker\<lparr>state := HALF_OPEN, successCount := 1\<rparr>,
       \<lparr>clock = 30000,
        sent = [InterceptorResponse ''req-19''
                 \<lparr>allowed = False, action = ''hard_block'', risk_score = dbl 0.7224999999999999,
                  labels = [''contact_info_phone''], nudge_message = None,
                  block_reason = Some ''Message blocked: detected phone number. Keep conversations on the platform for your safety.''\<rparr> 0],
        emitted = [(chat_message ''msg-019'' (JString ''555-123-4567''),
                 \<lparr>allowed = False, action = ''hard_block'', risk_score = dbl 0.7224999999999999,
                  labels = [''contact_info_phone''], nudge_message = None,
                  block_reason = Some ''Message blocked: detected phone number. Keep conversations on the platform for your safety.''\<rparr>)],
        scored = [chat_message ''msg-019'' (JString ''555-123-4567'')]\<rparr>)"
proof -
  have r: "interceptMessage default_config (chat_message ''msg-019'' (JString ''555-123-4567'')) =
      \<lparr>allowed = False, action = ''hard_block'', risk_score = dbl 0.7224999999999999,
                  labels = [''contact_info_phone''], nudge_message = None,
                  block_reason = Some ''Message blocked: detected phone number. Keep conversations on the platform for your safety.''\<rparr>"
    by (simp add: phone_message_score default_config_def js_gt_def js_ge_def dbl_eval)
  have t: "truthy (content (chat_message ''msg-019'' (JString ''555-123-4567'')))"
    by (simp add: chat_message_def)
  show ?thesis using t
    by (simp add: handleMessage_def handleMessage_with_def Let_def intercept_request_def open_breaker_def
        world_at_def request_id_or_def execute_def call_scorer_def onSuccess_def r)
qed

text \<open>
  C10. An intercept request whose message content is the empty string is answered with the
  error response \<open>processing_error\<close>, \<open>Missing message content\<close>, carrying the request
  identifier as received. The breaker and the rest of the world stay as they were, for
  every scorer: the scorer is not called and no event is emitted. \<open>interceptMessage\<close>
  itself maps such a message to the allow result with score 0 and no labels.
\<close>

theorem empty_content_is_an_error_at_the_dispatcher:
  assumes "request_type r = ''intercept''" and "message r = Some m" and "content m = JString []"
  shows "handleMessage_with scorer uuid (Request r) (b, w) =
           (b, w\<lparr>sent := sent w @ [ErrorResponse (request_id r) ''processing_error'' ''Missing message content'']\<rparr>)
       \<and> handleMessage cfg uuid (Request r) (b, w) =
           (b, w\<lparr>sent := sent w @ [ErrorResponse (request_id r) ''processing_error'' ''Missing message content'']\<rparr>)
       \<and> interceptMessage cfg m =
           \<lparr>allowed = True, action = ''allow'', risk_score = 0, labels = [],
            nudge_message = None, block_reason = None\<rparr>"
proof -
  have "\<not> truthy (content m)" using assms(3) by simp
  then show ?thesis using assms
    by (simp add: handleMessage_def handleMessage_with_missing_content interceptMessage_def)
qed

theorem empty_content_is_an_error_at_the_dispatcher_witness:
  "request_type (intercept_request ''req-15'' (chat_message ''msg-015'' (JString ''''))) = ''intercept''
   \<and> message (intercept_request ''req-15'' (chat_message ''msg-015'' (JString ''''))) = Some (chat_message ''msg-015'' (JString ''''))
   \<and> content (chat_message ''msg-015'' (JString '''')) = JString ''''
   \<and> handleMessage default_config ''uuid-1'' (Request (intercept_request ''req-15'' (chat_message ''msg-015'' (JString ''''))))
        (new_CircuitBreaker 5 30000 (Some 3), world_at 1000) =
        (new_CircuitBreaker 5 30000 (Some 3),
         \<lparr>clock = 1000, sent = [ErrorResponse (Some ''req-15'') ''processing_error'' ''Missing message content''],
          emitted = [], scored = []\<rparr>)
   \<and> interceptMessage default_config (chat_message ''msg-015'' (JString '''')) =
        \<lparr>allowed = True, action = ''allow'', risk_score = 0, labels = [],
         nudge_message = None, block_reason = None\<rparr>"
proof -
  have a: "request_type (intercept_request ''req-15'' (chat_message ''msg-015'' (JString ''''))) = ''intercept''"
    and b: "message (intercept_request ''req-15'' (chat_message ''msg-015'' (JString ''''))) = Some (chat_message ''msg-015'' (JString ''''))"
    and c: "content (chat_message ''msg-015'' (JString '''')) = JString ''''"
    by (simp_all add: intercept_request_def chat_message_def)
  show ?thesis
    using empty_content_is_an_error_at_the_dispatcher [OF a b c, of "\<lambda>msg. Inr (interceptMessage default_config msg)"
        "''uuid-1''" "new_CircuitBreaker 5 30000 (Some 3)" "world_at 1000" default_config] a b c
    by (simp add: world_at_def intercept_request_def)
qed

end
